theory Spec2Isabelle
  imports Main "HOL-Library.AList"
begin

section \<open>Data model\<close>

text \<open>
  Time is an integer number of microseconds since the epoch (the resolution of Python's
  \<^verbatim>\<open>datetime\<close>); a UTC calendar date is the number of whole days since the epoch.
  A Python \<^verbatim>\<open>str\<close> is a \<^typ>\<open>string\<close> holding its UTF-8 bytes, so
  \<^verbatim>\<open>.encode("utf-8")\<close> is the identity.
\<close>

type_synonym time = int

definition second :: int where
  "second = 1000000"

definition utc_date :: "time \<Rightarrow> int" where
  "utc_date t = t div (86400 * second)"

text \<open>The JSON values that occur in event payloads. \<open>JTime t\<close> is the ISO-8601 rendering of \<open>t\<close>.\<close>

datatype jv = JNull | JBool bool | JInt int | JStr string | JTime time

type_synonym event_data = "(string \<times> jv) list"

text \<open>
  The video resource returned by the \<^verbatim>\<open>videos\<close> endpoint. A key is optional in the model
  exactly when the source reads it with \<^verbatim>\<open>.get\<close> or tests it with \<^verbatim>\<open>in\<close> somewhere;
  keys it only ever indexes directly are fields that are always there. The source compares
  and subtracts \<^verbatim>\<open>concurrentViewers\<close> as numbers, so it is an integer here.
\<close>

record video_snippet =
  title :: string
  description :: string
  channelId :: string
  channelTitle :: string

record live_details =
  actualStartTime :: "string option"
  scheduledStartTime :: "string option"
  concurrentViewers :: "int option"
  activeLiveChatId :: "string option"

record video =
  snippet :: video_snippet
  liveStreamingDetails :: "live_details option"

record author_details =
  displayName :: string
  authorChannelId :: string
  isChatModerator :: "bool option"
  isChatSponsor :: "bool option"

text \<open>
  One item of a chat page, by its \<^verbatim>\<open>snippet["type"]\<close> tag. The arguments are
  \<^verbatim>\<open>publishedAt\<close>, the author and the type's own details.
\<close>

datatype chat_item =
    TextMessageEvent string author_details string
  | SuperChatEvent string author_details "string option" string string string
  | NewSponsorEvent string author_details
  | OtherEvent string

record chat_data =
  nextPageToken :: "string option"
  items :: "chat_item list"

text \<open>
  What \<^verbatim>\<open>session.get\<close> gives: it raises \<^verbatim>\<open>requests.RequestException\<close>, or returns a
  response whose body is not JSON, is a JSON object with an \<^verbatim>\<open>"error"\<close> member (its code
  and the \<^verbatim>\<open>reason\<close> of each of its errors), or is the data.
\<close>

datatype 'a body = NotJson | ErrorBody int "string list" | Data 'a

datatype 'a http_result = RequestException | Response "'a body"

datatype py_error = KeyError string

record payload =
  event_type :: string
  event :: event_data
  timestamp :: time
  source :: string

record webhook_request =
  url :: string
  json :: payload
  headers :: "(string \<times> string) list"

text \<open>
  Everything outside the process, and the configuration. The clock and the two HTTP peers
  are oracles indexed by the number of blocking effects (HTTP calls and sleeps) performed
  so far, so any sequence of answers can be written down. \<open>json_dumps\<close> and
  \<open>hmac_sha256_hex\<close> stand for \<^verbatim>\<open>json.dumps\<close> and
  \<^verbatim>\<open>hmac.new(key, msg, hashlib.sha256).hexdigest()\<close>.
\<close>

record env =
  time_at :: "nat \<Rightarrow> time"
  search_get :: "nat \<Rightarrow> string list http_result"
  videos_get :: "nat \<Rightarrow> string \<Rightarrow> video list http_result"
  chat_get :: "nat \<Rightarrow> string \<Rightarrow> string option \<Rightarrow> chat_data option http_result"
  http_post :: "nat \<Rightarrow> webhook_request \<Rightarrow> bool"
  webhook_url :: string
  webhook_secret :: string
  json_dumps :: "payload \<Rightarrow> string"
  hmac_sha256_hex :: "string \<Rightarrow> string \<Rightarrow> string"

text \<open>
  The mutable state of the process: the fields of \<^verbatim>\<open>YouTubeAPIClient\<close>,
  \<^verbatim>\<open>WebhookForwarder\<close> and \<^verbatim>\<open>YouTubeLiveMonitor\<close>, the effect counter, and two traces:
  \<open>posts\<close> lists every webhook POST with its outcome, \<open>emitted\<close> every event the monitor
  handed to the forwarder. Dictionaries are association lists in insertion order.
\<close>

record sys =
  tick :: nat
  posts :: "(webhook_request \<times> bool) list"
  emitted :: "(string \<times> event_data) list"
  api_calls :: "time list"
  quota_exceeded :: bool
  quota_used_today :: int
  quota_reset_date :: int
  failed_events :: "(string \<times> event_data \<times> time) list"
  active_streams :: "(string \<times> video) list"
  chat_page_tokens :: "(string \<times> string) list"
  events_forwarded :: nat
  stats_api_calls :: nat
  last_broadcast_check :: time

definition now :: "env \<Rightarrow> sys \<Rightarrow> time" where
  "now e s = time_at e (tick s)"

definition elapse :: "sys \<Rightarrow> sys" where
  "elapse s = s\<lparr>tick := tick s + 1\<rparr>"

text \<open>\<^verbatim>\<open>deque(maxlen=n).append\<close>: a full deque drops its oldest element.\<close>

definition deque_append :: "nat \<Rightarrow> 'a list \<Rightarrow> 'a \<Rightarrow> 'a list" where
  "deque_append maxlen xs x = (if maxlen \<le> length xs then tl xs else xs) @ [x]"

section \<open>YouTubeAPIClient\<close>

definition daily_quota_limit :: int where
  "daily_quota_limit = 10000"

definition quota_costs :: "string \<Rightarrow> int" where
  "quota_costs operation =
     (if operation = ''search'' then 100
      else if operation = ''videos'' then 1
      else if operation = ''liveChatMessages'' then 5
      else 1)"

definition check_rate_limit :: "env \<Rightarrow> sys \<Rightarrow> sys" where
  "check_rate_limit e s =
     (let t = now e s;
          s1 = s\<lparr>api_calls := dropWhile (\<lambda>c. t - c > 60 * second) (api_calls s)\<rparr>
      in if 50 \<le> length (api_calls s1) \<and> 60 * second - (t - hd (api_calls s1)) > 0
         then elapse s1
         else s1)"

definition record_api_call :: "env \<Rightarrow> string \<Rightarrow> sys \<Rightarrow> sys" where
  "record_api_call e operation s =
     (let s1 = s\<lparr>api_calls := deque_append 100 (api_calls s) (now e s)\<rparr>;
          today = utc_date (now e s);
          s2 = (if today \<noteq> quota_reset_date s1
                then s1\<lparr>quota_used_today := 0, quota_reset_date := today\<rparr>
                else s1)
      in s2\<lparr>quota_used_today := quota_used_today s2 + quota_costs operation\<rparr>)"

definition handle_api_response :: "'a body \<Rightarrow> sys \<Rightarrow> 'a option \<times> sys" where
  "handle_api_response b s =
     (case b of
        NotJson \<Rightarrow> (None, s)
      | ErrorBody code reasons \<Rightarrow>
          if code = 403 \<and> (''quotaExceeded'' \<in> set reasons \<or> ''dailyLimitExceeded'' \<in> set reasons)
          then (None, s\<lparr>quota_exceeded := True\<rparr>)
          else (None, s)
      | Data d \<Rightarrow> (Some d, s))"

definition get_live_broadcasts :: "env \<Rightarrow> sys \<Rightarrow> string list \<times> sys" where
  "get_live_broadcasts e s =
     (if quota_exceeded s then ([], s)
      else let s1 = check_rate_limit e s
           in case search_get e (tick s1) of
                RequestException \<Rightarrow> ([], elapse s1)
              | Response b \<Rightarrow>
                  (case handle_api_response b (record_api_call e ''search'' (elapse s1)) of
                     (None, s2) \<Rightarrow> ([], s2)
                   | (Some its, s2) \<Rightarrow> (its, s2)))"

definition get_video_details :: "env \<Rightarrow> string \<Rightarrow> sys \<Rightarrow> video option \<times> sys" where
  "get_video_details e video_id s =
     (if quota_exceeded s then (None, s)
      else let s1 = check_rate_limit e s
           in case videos_get e (tick s1) video_id of
                RequestException \<Rightarrow> (None, elapse s1)
              | Response b \<Rightarrow>
                  (case handle_api_response b (record_api_call e ''videos'' (elapse s1)) of
                     (None, s2) \<Rightarrow> (None, s2)
                   | (Some [], s2) \<Rightarrow> (None, s2)
                   | (Some (d # _), s2) \<Rightarrow> (Some d, s2)))"

text \<open>The empty dictionary \<^verbatim>\<open>{}\<close> that the source returns on every failure is \<open>None\<close>.\<close>

definition get_live_chat_messages ::
  "env \<Rightarrow> string \<Rightarrow> string option \<Rightarrow> sys \<Rightarrow> chat_data option \<times> sys" where
  "get_live_chat_messages e live_chat_id page_token s =
     (if quota_exceeded s then (None, s)
      else let s1 = check_rate_limit e s;
               tok = (case page_token of None \<Rightarrow> None
                      | Some p \<Rightarrow> if p = [] then None else Some p)
           in case chat_get e (tick s1) live_chat_id tok of
                RequestException \<Rightarrow> (None, elapse s1)
              | Response b \<Rightarrow>
                  (case handle_api_response b (record_api_call e ''liveChatMessages'' (elapse s1)) of
                     (None, s2) \<Rightarrow> (None, s2)
                   | (Some None, s2) \<Rightarrow> (None, s2)
                   | (Some (Some d), s2) \<Rightarrow> (Some d, s2)))"

section \<open>WebhookForwarder\<close>

definition generate_signature :: "env \<Rightarrow> string \<Rightarrow> string" where
  "generate_signature e p = hmac_sha256_hex e (webhook_secret e) p"

definition build_request :: "env \<Rightarrow> string \<Rightarrow> event_data \<Rightarrow> time \<Rightarrow> webhook_request" where
  "build_request e et ed t =
     (let p = \<lparr>event_type = et, event = ed, timestamp = t, source = ''youtube''\<rparr>;
          hs = [(''Content-Type'', ''application/json''),
                (''User-Agent'', ''Tubular-YouTube-Webhook-Forwarder/1.0'')]
      in \<lparr>url = webhook_url e, json = p,
          headers = (if webhook_secret e \<noteq> []
                     then AList.update ''X-Hub-Signature''
                            (''sha256='' @ generate_signature e (json_dumps e p)) hs
                     else hs)\<rparr>)"

text \<open>
  A POST that raises \<^verbatim>\<open>RequestException\<close> (also through \<^verbatim>\<open>raise_for_status\<close>) is the
  oracle's \<open>False\<close>. The back-off sleep is one more effect.
\<close>

function forward_event :: "env \<Rightarrow> string \<Rightarrow> event_data \<Rightarrow> nat \<Rightarrow> sys \<Rightarrow> bool \<times> sys" where
  "forward_event e et ed retry_count s =
     (let req = build_request e et ed (now e s);
          ok = http_post e (tick s) req;
          s1 = elapse (s\<lparr>posts := posts s @ [(req, ok)]\<rparr>)
      in if ok then (True, s1)
         else if retry_count < 3
         then forward_event e et ed (retry_count + 1) (elapse s1)
         else (False, s1\<lparr>failed_events := deque_append 100 (failed_events s1) (et, ed, now e s1)\<rparr>))"
  by pat_completeness auto
termination
  by (relation "measure (\<lambda>(e, et, ed, retry_count, s). 3 - retry_count)") auto

declare forward_event.simps [simp del]



section \<open>YouTubeLiveMonitor\<close>

text \<open>
  The idiom \<^verbatim>\<open>if self.forwarder.forward_event(t, d): self.stats["events_forwarded"] += 1\<close>;
  the event is entered in the trace \<open>emitted\<close> as it is handed over.
\<close>

definition forward_and_count :: "env \<Rightarrow> string \<Rightarrow> event_data \<Rightarrow> sys \<Rightarrow> sys" where
  "forward_and_count e et ed s =
     (case forward_event e et ed 0 (s\<lparr>emitted := emitted s @ [(et, ed)]\<rparr>) of
        (True, s1) \<Rightarrow> s1\<lparr>events_forwarded := Suc (events_forwarded s1)\<rparr>
      | (False, s1) \<Rightarrow> s1)"

definition count_api_call :: "sys \<Rightarrow> sys" where
  "count_api_call s = s\<lparr>stats_api_calls := Suc (stats_api_calls s)\<rparr>"

text \<open>\<^verbatim>\<open>d.get(key, default)\<close>.\<close>

definition get_or :: "'a option \<Rightarrow> 'a \<Rightarrow> 'a" where
  "get_or x d = (case x of None \<Rightarrow> d | Some v \<Rightarrow> v)"

definition opt_str :: "string option \<Rightarrow> jv" where
  "opt_str x = (case x of None \<Rightarrow> JNull | Some v \<Rightarrow> JStr v)"

text \<open>\<^verbatim>\<open>details.get("liveStreamingDetails", {}).get("concurrentViewers", 0)\<close>.\<close>

definition viewers_of :: "video \<Rightarrow> int" where
  "viewers_of d = (case liveStreamingDetails d of None \<Rightarrow> 0 | Some l \<Rightarrow> get_or (concurrentViewers l) 0)"

text \<open>
  \<^verbatim>\<open>diff / old > 0.1\<close> for integers with \<open>old > 0\<close>. Python divides to the nearest
  double and compares with the double \<open>0.1\<close>; for every \<open>old\<close> below \<open>8 * 10^15\<close> that
  is the exact comparison \<open>10 * diff > old\<close>, which is what the model computes.
\<close>

definition over_ten_percent :: "int \<Rightarrow> int \<Rightarrow> bool" where
  "over_ten_percent diff old = (old < 10 * diff)"

definition chat_event :: "string \<Rightarrow> chat_item \<Rightarrow> (string \<times> event_data) option" where
  "chat_event video_id item =
     (case item of
        TextMessageEvent published author text \<Rightarrow>
          Some (''youtube.chat.message'',
                [(''video_id'', JStr video_id),
                 (''message'', JStr text),
                 (''author_name'', JStr (displayName author)),
                 (''author_channel_id'', JStr (authorChannelId author)),
                 (''is_moderator'', JBool (get_or (isChatModerator author) False)),
                 (''is_sponsor'', JBool (get_or (isChatSponsor author) False)),
                 (''timestamp'', JStr published)])
      | SuperChatEvent published author comment amount currency display \<Rightarrow>
          Some (''youtube.chat.superchat'',
                [(''video_id'', JStr video_id),
                 (''message'', JStr (get_or comment [])),
                 (''author_name'', JStr (displayName author)),
                 (''author_channel_id'', JStr (authorChannelId author)),
                 (''amount'', JStr amount),
                 (''currency'', JStr currency),
                 (''amount_display'', JStr display),
                 (''timestamp'', JStr published)])
      | NewSponsorEvent published author \<Rightarrow>
          Some (''youtube.chat.new_sponsor'',
                [(''video_id'', JStr video_id),
                 (''author_name'', JStr (displayName author)),
                 (''author_channel_id'', JStr (authorChannelId author)),
                 (''timestamp'', JStr published)])
      | OtherEvent t \<Rightarrow> None)"

fun chat_items_loop :: "env \<Rightarrow> string \<Rightarrow> chat_item list \<Rightarrow> sys \<Rightarrow> sys" where
  "chat_items_loop e video_id [] s = s"
| "chat_items_loop e video_id (item # rest) s =
     chat_items_loop e video_id rest
       (case chat_event video_id item of
          None \<Rightarrow> s
        | Some (et, ed) \<Rightarrow> forward_and_count e et ed s)"

definition monitor_chat :: "env \<Rightarrow> string \<Rightarrow> string \<Rightarrow> sys \<Rightarrow> sys" where
  "monitor_chat e video_id live_chat_id s =
     (case get_live_chat_messages e live_chat_id (map_of (chat_page_tokens s) video_id) s of
        (None, s1) \<Rightarrow> count_api_call s1
      | (Some cd, s1) \<Rightarrow>
          chat_items_loop e video_id (items cd)
            ((count_api_call s1)\<lparr>chat_page_tokens :=
               AList.update video_id (get_or (nextPageToken cd) []) (chat_page_tokens s1)\<rparr>))"

definition chat_if_available :: "env \<Rightarrow> string \<Rightarrow> live_details \<Rightarrow> sys \<Rightarrow> sys" where
  "chat_if_available e video_id l s =
     (case activeLiveChatId l of None \<Rightarrow> s | Some c \<Rightarrow> monitor_chat e video_id c s)"

text \<open>The lightweight refresh of one tracked stream (the body of the first loop).\<close>

definition refresh_stream :: "env \<Rightarrow> string \<Rightarrow> sys \<Rightarrow> py_error option \<times> sys" where
  "refresh_stream e video_id s =
     (case get_video_details e video_id s of (details, s0) \<Rightarrow>
        let s1 = count_api_call s0
        in case details of
             None \<Rightarrow> (None, s1)
           | Some d \<Rightarrow>
               (case liveStreamingDetails d of
                  None \<Rightarrow> (None, s1)
                | Some l \<Rightarrow>
                    (case map_of (active_streams s1) video_id of
                       None \<Rightarrow> (Some (KeyError video_id), s1)
                     | Some old_details \<Rightarrow>
                         (case liveStreamingDetails old_details of
                            None \<Rightarrow> (Some (KeyError ''liveStreamingDetails''), s1)
                          | Some ol \<Rightarrow>
                              let old_viewers = get_or (concurrentViewers ol) 0;
                                  new_viewers = get_or (concurrentViewers l) 0;
                                  s2 = s1\<lparr>active_streams := AList.update video_id d (active_streams s1)\<rparr>
                              in if old_viewers > 0 \<and> over_ten_percent \<bar>new_viewers - old_viewers\<bar> old_viewers
                                 then (None, forward_and_count e ''youtube.live.viewers_updated''
                                          [(''video_id'', JStr video_id),
                                           (''concurrent_viewers'', JInt new_viewers),
                                           (''title'', JStr (title (snippet d))),
                                           (''channel_id'', JStr (channelId (snippet d)))] s2)
                                 else (None, s2)))))"

fun refresh_loop :: "env \<Rightarrow> string list \<Rightarrow> sys \<Rightarrow> py_error option \<times> sys" where
  "refresh_loop e [] s = (None, s)"
| "refresh_loop e (video_id # rest) s =
     (case refresh_stream e video_id s of
        (Some err, s1) \<Rightarrow> (Some err, s1)
      | (None, s1) \<Rightarrow> refresh_loop e rest s1)"

text \<open>One listed broadcast of a full check (the body of the second loop, after the
  identifier has entered \<^verbatim>\<open>current_stream_ids\<close>).\<close>

definition process_broadcast :: "env \<Rightarrow> string \<Rightarrow> sys \<Rightarrow> py_error option \<times> sys" where
  "process_broadcast e video_id s =
     (case get_video_details e video_id s of (details, s0) \<Rightarrow>
        let s1 = count_api_call s0
        in case details of
             None \<Rightarrow> (None, s1)
           | Some d \<Rightarrow>
               (case map_of (active_streams s1) video_id of
                  None \<Rightarrow>
                    (let s2 = s1\<lparr>active_streams := AList.update video_id d (active_streams s1)\<rparr>
                     in case liveStreamingDetails d of
                          None \<Rightarrow> (Some (KeyError ''liveStreamingDetails''), s2)
                        | Some l \<Rightarrow>
                            (None, chat_if_available e video_id l
                               (forward_and_count e ''youtube.live.started''
                                  [(''video_id'', JStr video_id),
                                   (''title'', JStr (title (snippet d))),
                                   (''description'', JStr (description (snippet d))),
                                   (''channel_id'', JStr (channelId (snippet d))),
                                   (''channel_title'', JStr (channelTitle (snippet d))),
                                   (''started_at'', opt_str (actualStartTime l)),
                                   (''scheduled_start'', opt_str (scheduledStartTime l)),
                                   (''concurrent_viewers'', JInt (get_or (concurrentViewers l) 0))] s2)))
                | Some old_details \<Rightarrow>
                    (let old_viewers = viewers_of old_details;
                         new_viewers = viewers_of d;
                         viewer_diff = \<bar>new_viewers - old_viewers\<bar>;
                         s2 = (if old_viewers \<noteq> 0 \<and> new_viewers \<noteq> 0 \<and>
                                  (viewer_diff > 100 \<or> (old_viewers > 0 \<and> over_ten_percent viewer_diff old_viewers))
                               then forward_and_count e ''youtube.live.viewers_updated''
                                      [(''video_id'', JStr video_id),
                                       (''concurrent_viewers'', JInt new_viewers),
                                       (''previous_viewers'', JInt old_viewers)] s1
                               else s1);
                         s3 = s2\<lparr>active_streams := AList.update video_id d (active_streams s2)\<rparr>
                     in case liveStreamingDetails d of
                          None \<Rightarrow> (Some (KeyError ''liveStreamingDetails''), s3)
                        | Some l \<Rightarrow> (None, chat_if_available e video_id l s3))))"

fun broadcasts_loop ::
  "env \<Rightarrow> string list \<Rightarrow> string set \<Rightarrow> sys \<Rightarrow> py_error option \<times> string set \<times> sys" where
  "broadcasts_loop e [] current_stream_ids s = (None, current_stream_ids, s)"
| "broadcasts_loop e (video_id # rest) current_stream_ids s =
     (case process_broadcast e video_id s of
        (Some err, s1) \<Rightarrow> (Some err, insert video_id current_stream_ids, s1)
      | (None, s1) \<Rightarrow> broadcasts_loop e rest (insert video_id current_stream_ids) s1)"

definition end_stream :: "env \<Rightarrow> string \<Rightarrow> sys \<Rightarrow> py_error option \<times> sys" where
  "end_stream e video_id s =
     (case map_of (active_streams s) video_id of
        None \<Rightarrow> (Some (KeyError video_id), s)
      | Some d \<Rightarrow>
          (let s1 = forward_and_count e ''youtube.live.ended''
                      [(''video_id'', JStr video_id),
                       (''title'', JStr (title (snippet d))),
                       (''channel_id'', JStr (channelId (snippet d))),
                       (''ended_at'', JTime (now e s))] s
           in (None, s1\<lparr>active_streams := AList.delete video_id (active_streams s1),
                        chat_page_tokens := AList.delete video_id (chat_page_tokens s1)\<rparr>)))"

fun ended_loop :: "env \<Rightarrow> string list \<Rightarrow> sys \<Rightarrow> py_error option \<times> sys" where
  "ended_loop e [] s = (None, s)"
| "ended_loop e (video_id # rest) s =
     (case end_stream e video_id s of
        (Some err, s1) \<Rightarrow> (Some err, s1)
      | (None, s1) \<Rightarrow> ended_loop e rest s1)"

text \<open>
  \<^verbatim>\<open>set(self.active_streams.keys()) - current_stream_ids\<close>. Python leaves the iteration
  order of a set open; the model takes the keys in the order of the dictionary.
\<close>

definition ended_streams :: "sys \<Rightarrow> string set \<Rightarrow> string list" where
  "ended_streams s current_stream_ids =
     remdups (filter (\<lambda>v. v \<notin> current_stream_ids) (map fst (active_streams s)))"

definition full_check_due :: "env \<Rightarrow> sys \<Rightarrow> bool" where
  "full_check_due e s = (\<not> (active_streams s \<noteq> [] \<and> now e s - last_broadcast_check s < 300 * second))"

definition check_live_streams :: "env \<Rightarrow> sys \<Rightarrow> py_error option \<times> sys" where
  "check_live_streams e s =
     (if \<not> full_check_due e s
      then refresh_loop e (map fst (active_streams s)) s
      else (case get_live_broadcasts e (s\<lparr>last_broadcast_check := now e s\<rparr>) of
              (broadcasts, s1) \<Rightarrow>
                (case broadcasts_loop e broadcasts {} (count_api_call s1) of
                   (Some err, current_stream_ids, s2) \<Rightarrow> (Some err, s2)
                 | (None, current_stream_ids, s2) \<Rightarrow>
                     ended_loop e (ended_streams s2 current_stream_ids) s2)))"

section \<open>CallbackHandler\<close>

record http_response =
  status :: nat
  content_type :: "string option"
  response_body :: string

text \<open>
  \<^verbatim>\<open>do_GET\<close> of \<^verbatim>\<open>src/server/server.py\<close>. The request is its path and the dictionary
  \<^verbatim>\<open>parse_qs(urlparse(path).query)\<close>; \<open>events_json\<close> is the body served for
  \<^verbatim>\<open>/data/events\<close>. An exception inside the handler gives the 500 reply.
\<close>

definition first_value :: "string list \<Rightarrow> string option" where
  "first_value vs = (case vs of [] \<Rightarrow> None | v # _ \<Rightarrow> Some v)"

definition do_GET :: "string \<Rightarrow> (string \<times> string list) list \<Rightarrow> string \<Rightarrow> http_response" where
  "do_GET path params events_json =
     (let internal_error = \<lparr>status = 500, content_type = Some ''text/plain'',
                            response_body = ''Internal Server Error''\<rparr>
      in if path = ''/data/events''
         then \<lparr>status = 200, content_type = Some ''application/json'', response_body = events_json\<rparr>
         else (case map_of params ''hub_challenge'' of
                 Some vs \<Rightarrow>
                   (case first_value vs of
                      None \<Rightarrow> internal_error
                    | Some challenge \<Rightarrow>
                        (case first_value (get_or (map_of params ''hub_mode'') ['''']) of
                           None \<Rightarrow> internal_error
                         | Some mode \<Rightarrow>
                             \<lparr>status = 200, content_type = Some ''text/plain'',
                              response_body = challenge\<rparr>))
               | None \<Rightarrow>
                   \<lparr>status = 404, content_type = Some ''text/plain'',
                    response_body = ''Not Found: '' @ path\<rparr>))"

text \<open>\<^verbatim>\<open>do_GET\<close> of \<^verbatim>\<open>contrib/tubular/tubular.py\<close>, the single-file copy of the handler.\<close>

definition do_GET_contrib :: "(string \<times> string list) list \<Rightarrow> (http_response, py_error) sum" where
  "do_GET_contrib params =
     (case map_of params ''hub.challenge'' of
        Some vs \<Rightarrow>
          (case first_value vs of
             None \<Rightarrow> Inr (KeyError ''0'')
           | Some challenge \<Rightarrow>
               (case first_value (get_or (map_of params ''hub.mode'') ['''']) of
                  None \<Rightarrow> Inr (KeyError ''0'')
                | Some mode \<Rightarrow>
                    Inl \<lparr>status = 200, content_type = Some ''text/plain'',
                         response_body = challenge\<rparr>))
      | None \<Rightarrow> Inl \<lparr>status = 200, content_type = None, response_body = []\<rparr>)"

section \<open>Vocabulary of the properties\<close>

text \<open>
  The \<open>i\<close>-th POST of a delivery that starts in state \<open>s\<close>, with its outcome: every attempt
  and every back-off sleep is one effect, so attempt \<open>i\<close> happens at effect \<open>tick s + 2 * i\<close>.
\<close>

definition attempt :: "env \<Rightarrow> string \<Rightarrow> event_data \<Rightarrow> sys \<Rightarrow> nat \<Rightarrow> webhook_request \<times> bool" where
  "attempt e et ed s i =
     (let req = build_request e et ed (time_at e (tick s + 2 * i))
      in (req, http_post e (tick s + 2 * i) req))"



text \<open>An event is about the video whose identifier is its \<^verbatim>\<open>video_id\<close>.\<close>

definition about :: "string \<Rightarrow> string \<times> event_data \<Rightarrow> bool" where
  "about v ev = (map_of (snd ev) ''video_id'' = Some (JStr v))"

definition ended_for :: "string \<Rightarrow> string \<times> event_data \<Rightarrow> bool" where
  "ended_for v ev = (fst ev = ''youtube.live.ended'' \<and> about v ev)"

text \<open>The events handed to the forwarder between two states, and a bound on what they are.\<close>

definition new_events :: "sys \<Rightarrow> sys \<Rightarrow> (string \<times> event_data) list" where
  "new_events s s' = drop (length (emitted s)) (emitted s')"

definition emits :: "(string \<times> event_data \<Rightarrow> bool) \<Rightarrow> sys \<Rightarrow> sys \<Rightarrow> bool" where
  "emits P s s' = (\<exists>evs. emitted s' = emitted s @ evs \<and> (\<forall>ev \<in> set evs. P ev))"

definition is_chat_type :: "string \<Rightarrow> bool" where
  "is_chat_type et =
     (et = ''youtube.chat.message'' \<or> et = ''youtube.chat.superchat'' \<or> et = ''youtube.chat.new_sponsor'')"

text \<open>The two viewer-count rules, as the two paths of the source decide them.\<close>

definition full_threshold :: "int \<Rightarrow> int \<Rightarrow> bool" where
  "full_threshold old_viewers new_viewers =
     (old_viewers \<noteq> 0 \<and> new_viewers \<noteq> 0 \<and>
      (100 < \<bar>new_viewers - old_viewers\<bar> \<or>
       0 < old_viewers \<and> old_viewers < 10 * \<bar>new_viewers - old_viewers\<bar>))"

definition light_threshold :: "int \<Rightarrow> int \<Rightarrow> bool" where
  "light_threshold old_viewers new_viewers =
     (0 < old_viewers \<and> old_viewers < 10 * \<bar>new_viewers - old_viewers\<bar>)"

text \<open>What the processing of one listed broadcast \<open>v\<close> can emit.\<close>

definition broadcast_event :: "string \<Rightarrow> string \<times> event_data \<Rightarrow> bool" where
  "broadcast_event v ev =
     (about v ev \<and>
      (fst ev = ''youtube.live.started'' \<or> is_chat_type (fst ev) \<or>
       fst ev = ''youtube.live.viewers_updated'' \<and>
       (\<exists>old_viewers new_viewers.
          map_of (snd ev) ''previous_viewers'' = Some (JInt old_viewers) \<and>
          map_of (snd ev) ''concurrent_viewers'' = Some (JInt new_viewers) \<and>
          full_threshold old_viewers new_viewers)))"

text \<open>What the lightweight refresh of the tracked stream \<open>v\<close> can emit, given the active set
  it started from.\<close>

definition light_event :: "(string \<times> video) list \<Rightarrow> string \<Rightarrow> string \<times> event_data \<Rightarrow> bool" where
  "light_event streams v ev =
     (about v ev \<and> fst ev = ''youtube.live.viewers_updated'' \<and>
      (\<exists>old_details ol new_viewers.
         map_of streams v = Some old_details \<and>
         liveStreamingDetails old_details = Some ol \<and>
         map_of (snd ev) ''concurrent_viewers'' = Some (JInt new_viewers) \<and>
         light_threshold (get_or (concurrentViewers ol) 0) new_viewers))"

text \<open>The broadcast list that a full check started in \<open>s\<close> receives.\<close>

definition listed :: "env \<Rightarrow> sys \<Rightarrow> string list" where
  "listed e s = fst (get_live_broadcasts e (s\<lparr>last_broadcast_check := now e s\<rparr>))"

text \<open>The broadcast-list call of a full check started in \<open>s\<close> is made and fails in transport.\<close>

definition list_call_fails :: "env \<Rightarrow> sys \<Rightarrow> bool" where
  "list_call_fails e s =
     (\<not> quota_exceeded s \<and>
      search_get e (tick (check_rate_limit e (s\<lparr>last_broadcast_check := now e s\<rparr>))) = RequestException)"

text \<open>The video that a reply of the \<^verbatim>\<open>videos\<close> endpoint yields, if any.\<close>

definition first_item :: "video list http_result \<Rightarrow> video option" where
  "first_item r = (case r of Response (Data (d # ds)) \<Rightarrow> Some d | _ \<Rightarrow> None)"

text \<open>Every details fetch for \<open>v\<close> returns \<^verbatim>\<open>None\<close>; every one returns \<^verbatim>\<open>None\<close> or a video
  without \<^verbatim>\<open>liveStreamingDetails\<close>.\<close>

definition details_unavailable :: "env \<Rightarrow> string \<Rightarrow> bool" where
  "details_unavailable e v = (\<forall>t. first_item (videos_get e t v) = None)"

definition live_details_unavailable :: "env \<Rightarrow> string \<Rightarrow> bool" where
  "live_details_unavailable e v =
     (\<forall>t. case first_item (videos_get e t v) of None \<Rightarrow> True | Some d \<Rightarrow> liveStreamingDetails d = None)"


section \<open>Example inputs\<close>

definition example_env ::
  "(nat \<Rightarrow> time) \<Rightarrow> (nat \<Rightarrow> string list http_result) \<Rightarrow> (nat \<Rightarrow> string \<Rightarrow> video list http_result) \<Rightarrow>
   (nat \<Rightarrow> webhook_request \<Rightarrow> bool) \<Rightarrow> env" where
  "example_env clock search videos post =
     \<lparr>time_at = clock, search_get = search, videos_get = videos,
      chat_get = (\<lambda>t c p. RequestException), http_post = post,
      webhook_url = ''http://localhost/webhooks/youtube'', webhook_secret = ''s'',
      json_dumps = event_type, hmac_sha256_hex = (\<lambda>k m. k @ m)\<rparr>"

definition initial_sys :: sys where
  "initial_sys =
     \<lparr>tick = 0, posts = [], emitted = [], api_calls = [], quota_exceeded = False,
      quota_used_today = 0, quota_reset_date = 0, failed_events = [], active_streams = [],
      chat_page_tokens = [], events_forwarded = 0, stats_api_calls = 0, last_broadcast_check = 0\<rparr>"

definition example_video :: "int \<Rightarrow> video" where
  "example_video n =
     \<lparr>snippet = \<lparr>title = ''Live'', description = [], channelId = ''UC1'', channelTitle = ''Channel''\<rparr>,
      liveStreamingDetails =
        Some \<lparr>actualStartTime = None, scheduledStartTime = None,
              concurrentViewers = Some n, activeLiveChatId = None\<rparr>\<rparr>"

section \<open>Properties of the API client\<close>

lemma handle_api_response_quota [simp]:
  "quota_used_today (snd (handle_api_response b s)) = quota_used_today s"
  by (simp add: handle_api_response_def split: body.splits)

lemma check_rate_limit_quota [simp]:
  "quota_used_today (check_rate_limit e s) = quota_used_today s"
  "quota_reset_date (check_rate_limit e s) = quota_reset_date s"
  by (simp_all add: check_rate_limit_def Let_def elapse_def)

lemma record_api_call_new_date:
  "utc_date (now e s) \<noteq> quota_reset_date s \<Longrightarrow>
   quota_used_today (record_api_call e operation s) = quota_costs operation \<and>
   quota_reset_date (record_api_call e operation s) = utc_date (now e s)"
  by (simp add: record_api_call_def Let_def)

lemma get_live_broadcasts_new_date:
  "\<not> quota_exceeded s \<Longrightarrow> search_get e (tick (check_rate_limit e s)) \<noteq> RequestException \<Longrightarrow>
   utc_date (time_at e (tick (check_rate_limit e s) + 1)) \<noteq> quota_reset_date s \<Longrightarrow>
   quota_used_today (snd (get_live_broadcasts e s)) = 100"
  by (auto simp: get_live_broadcasts_def Let_def record_api_call_def elapse_def now_def
      quota_costs_def handle_api_response_def split: http_result.splits body.splits)

lemma get_video_details_new_date:
  "\<not> quota_exceeded s \<Longrightarrow> videos_get e (tick (check_rate_limit e s)) v \<noteq> RequestException \<Longrightarrow>
   utc_date (time_at e (tick (check_rate_limit e s) + 1)) \<noteq> quota_reset_date s \<Longrightarrow>
   quota_used_today (snd (get_video_details e v s)) = 1"
  by (auto simp: get_video_details_def Let_def record_api_call_def elapse_def now_def
      quota_costs_def handle_api_response_def split: http_result.splits body.splits list.splits)

text \<open>
  Claim C4. When the quota tracker is in the exceeded state, each of the three API operations
  returns its empty result and leaves the whole state, so also the cumulative total, as it
  was. When the date of the clock differs from the stored reset date, recording a call sets
  the total to the cost of that operation alone and stores the new date; so the first charged
  broadcast search of a new date leaves the total at 100 and the first charged details fetch
  leaves it at 1.
\<close>

theorem quota_refusal_and_rollover:
  "(quota_exceeded s \<longrightarrow>
      get_live_broadcasts e s = ([], s) \<and>
      get_video_details e v s = (None, s) \<and>
      get_live_chat_messages e c p s = (None, s)) \<and>
   (utc_date (now e s) \<noteq> quota_reset_date s \<longrightarrow>
      quota_used_today (record_api_call e operation s) = quota_costs operation \<and>
      quota_reset_date (record_api_call e operation s) = utc_date (now e s)) \<and>
   (\<not> quota_exceeded s \<and>
    utc_date (time_at e (tick (check_rate_limit e s) + 1)) \<noteq> quota_reset_date s \<longrightarrow>
      (search_get e (tick (check_rate_limit e s)) \<noteq> RequestException \<longrightarrow>
         quota_used_today (snd (get_live_broadcasts e s)) = 100) \<and>
      (videos_get e (tick (check_rate_limit e s)) v \<noteq> RequestException \<longrightarrow>
         quota_used_today (snd (get_video_details e v s)) = 1))"
proof (intro conjI impI)
  assume "quota_exceeded s"
  then show "get_live_broadcasts e s = ([], s)" "get_video_details e v s = (None, s)"
    "get_live_chat_messages e c p s = (None, s)"
    by (simp_all add: get_live_broadcasts_def get_video_details_def get_live_chat_messages_def)
next
  assume "utc_date (now e s) \<noteq> quota_reset_date s"
  then show "quota_used_today (record_api_call e operation s) = quota_costs operation"
    "quota_reset_date (record_api_call e operation s) = utc_date (now e s)"
    using record_api_call_new_date by simp_all
next
  assume "\<not> quota_exceeded s \<and>
    utc_date (time_at e (tick (check_rate_limit e s) + 1)) \<noteq> quota_reset_date s"
    and "search_get e (tick (check_rate_limit e s)) \<noteq> RequestException"
  then show "quota_used_today (snd (get_live_broadcasts e s)) = 100"
    using get_live_broadcasts_new_date by simp
next
  assume "\<not> quota_exceeded s \<and>
    utc_date (time_at e (tick (check_rate_limit e s) + 1)) \<noteq> quota_reset_date s"
    and "videos_get e (tick (check_rate_limit e s)) v \<noteq> RequestException"
  then show "quota_used_today (snd (get_video_details e v s)) = 1"
    using get_video_details_new_date by simp
qed

theorem quota_refusal_and_rollover_witness:
  "quota_exceeded (initial_sys\<lparr>quota_exceeded := True, quota_used_today := 250\<rparr>) \<and>
   get_video_details
     (example_env (\<lambda>t. 86400 * second) (\<lambda>t. Response (Data [])) (\<lambda>t v. Response (Data [])) (\<lambda>t r. True))
     ''V1'' (initial_sys\<lparr>quota_exceeded := True, quota_used_today := 250\<rparr>)
     = (None, initial_sys\<lparr>quota_exceeded := True, quota_used_today := 250\<rparr>) \<and>
   utc_date (now
     (example_env (\<lambda>t. 86400 * second) (\<lambda>t. Response (Data [])) (\<lambda>t v. Response (Data [])) (\<lambda>t r. True))
     (initial_sys\<lparr>quota_used_today := 250\<rparr>)) \<noteq> quota_reset_date (initial_sys\<lparr>quota_used_today := 250\<rparr>) \<and>
   quota_used_today (snd (get_live_broadcasts
     (example_env (\<lambda>t. 86400 * second) (\<lambda>t. Response (Data [])) (\<lambda>t v. Response (Data [])) (\<lambda>t r. True))
     (initial_sys\<lparr>quota_used_today := 250\<rparr>))) = 100"
proof -
  let ?e = "example_env (\<lambda>t. 86400 * second) (\<lambda>t. Response (Data [])) (\<lambda>t v. Response (Data [])) (\<lambda>t r. True)"
  let ?x = "initial_sys\<lparr>quota_exceeded := True, quota_used_today := 250\<rparr>"
  let ?s = "initial_sys\<lparr>quota_used_today := 250\<rparr>"
  have x: "quota_exceeded ?x" by (simp add: initial_sys_def)
  have d: "utc_date (now ?e ?s) \<noteq> quota_reset_date ?s"
    by (simp add: utc_date_def now_def example_env_def initial_sys_def second_def)
  have h: "\<not> quota_exceeded ?s \<and>
      utc_date (time_at ?e (tick (check_rate_limit ?e ?s) + 1)) \<noteq> quota_reset_date ?s"
    by (simp add: utc_date_def example_env_def initial_sys_def second_def)
  have g: "search_get ?e (tick (check_rate_limit ?e ?s)) \<noteq> RequestException"
    by (simp add: example_env_def)
  from quota_refusal_and_rollover [of ?x ?e "''V1''" "''C''" None "''search''" ]
  have "get_video_details ?e ''V1'' ?x = (None, ?x)" using x by blast
  moreover from quota_refusal_and_rollover [of ?s ?e "''V1''" "''C''" None "''search''"]
  have "quota_used_today (snd (get_live_broadcasts ?e ?s)) = 100" using h g by blast
  ultimately show ?thesis using x d by blast
qed

section \<open>Properties of the forwarder\<close>

lemma plus_Sucs:
  "(n::nat) + 2 = Suc (Suc n)"
  "(n::nat) + 3 = Suc (Suc (Suc n))"
  "(n::nat) + 4 = Suc (Suc (Suc (Suc n)))"
  "(n::nat) + 5 = Suc (Suc (Suc (Suc (Suc n))))"
  "(n::nat) + 6 = Suc (Suc (Suc (Suc (Suc (Suc n)))))"
  "(n::nat) + 7 = Suc (Suc (Suc (Suc (Suc (Suc (Suc n))))))"
  by simp_all

lemma forward_event_all_fail:
  assumes "\<forall>i<4. \<not> snd (attempt e et ed s i)"
  shows "forward_event e et ed 0 s =
     (False, s\<lparr>posts := posts s @ [attempt e et ed s 0, attempt e et ed s 1, attempt e et ed s 2, attempt e et ed s 3], tick := tick s + 7, 
        failed_events := deque_append 100 (failed_events s) (et, ed, time_at e (tick s + 7))\<rparr>)"
proof -
  have a: "\<not> snd (attempt e et ed s 0)" "\<not> snd (attempt e et ed s 1)"
    "\<not> snd (attempt e et ed s 2)" "\<not> snd (attempt e et ed s 3)"
    using assms by simp_all
  show ?thesis
    using a
    apply (simp add: attempt_def Let_def plus_Sucs)
    apply (subst forward_event.simps, simp add: Let_def elapse_def now_def)
    apply (subst forward_event.simps, simp add: Let_def elapse_def now_def)
    apply (subst forward_event.simps, simp add: Let_def elapse_def now_def)
    apply (subst forward_event.simps, simp add: Let_def elapse_def now_def)
    done
qed

lemma forward_event_first_success:
  assumes "k < 4" "\<forall>i<k. \<not> snd (attempt e et ed s i)" "snd (attempt e et ed s k)"
  shows "forward_event e et ed 0 s =
     (True, s\<lparr>posts := posts s @ map (attempt e et ed s) [0..<Suc k], tick := tick s + 2 * k + 1\<rparr>)"
proof -
  from assms(1) consider "k = 0" | "k = 1" | "k = 2" | "k = 3" by linarith
  then show ?thesis
  proof cases
    case 1
    then show ?thesis using assms(3)
      apply (simp add: attempt_def Let_def plus_Sucs)
      apply (subst forward_event.simps, simp add: Let_def elapse_def now_def)
      done
  next
    case 2
    then have "\<not> snd (attempt e et ed s 0)" using assms(2) by simp
    then show ?thesis using assms(3) 2
      apply (simp add: attempt_def Let_def upt_rec plus_Sucs)
      apply (subst forward_event.simps, simp add: Let_def elapse_def now_def)
      apply (subst forward_event.simps, simp add: Let_def elapse_def now_def)
      done
  next
    case 3
    then have "\<not> snd (attempt e et ed s 0)" "\<not> snd (attempt e et ed s 1)" using assms(2) by simp_all
    then show ?thesis using assms(3) 3
      apply (simp add: attempt_def Let_def upt_rec plus_Sucs)
      apply (subst forward_event.simps, simp add: Let_def elapse_def now_def)
      apply (subst forward_event.simps, simp add: Let_def elapse_def now_def)
      apply (subst forward_event.simps, simp add: Let_def elapse_def now_def)
        done
  next
    case 4
    then have "\<not> snd (attempt e et ed s 0)" "\<not> snd (attempt e et ed s 1)" "\<not> snd (attempt e et ed s 2)" using assms(2) by simp_all
    then show ?thesis using assms(3) 4
      apply (simp add: attempt_def Let_def upt_rec plus_Sucs)
      apply (subst forward_event.simps, simp add: Let_def elapse_def now_def)
      apply (subst forward_event.simps, simp add: Let_def elapse_def now_def)
      apply (subst forward_event.simps, simp add: Let_def elapse_def now_def)
      apply (subst forward_event.simps, simp add: Let_def elapse_def now_def)
        done
  qed
qed

lemma forward_event_frame:
  "emitted (snd (forward_event e et ed rc s)) = emitted s \<and>
   api_calls (snd (forward_event e et ed rc s)) = api_calls s \<and>
   quota_exceeded (snd (forward_event e et ed rc s)) = quota_exceeded s \<and>
   quota_used_today (snd (forward_event e et ed rc s)) = quota_used_today s \<and>
   quota_reset_date (snd (forward_event e et ed rc s)) = quota_reset_date s \<and>
   active_streams (snd (forward_event e et ed rc s)) = active_streams s \<and>
   chat_page_tokens (snd (forward_event e et ed rc s)) = chat_page_tokens s \<and>
   events_forwarded (snd (forward_event e et ed rc s)) = events_forwarded s \<and>
   stats_api_calls (snd (forward_event e et ed rc s)) = stats_api_calls s \<and>
   last_broadcast_check (snd (forward_event e et ed rc s)) = last_broadcast_check s"
proof (induction e et ed rc s rule: forward_event.induct)
  case (1 e et ed rc s)
  show ?case
    apply (subst (1 2 3 4 5 6 7 8 9 10) forward_event.simps)
    using 1 apply (simp add: Let_def elapse_def)
    done
qed

text \<open>
  Claim C5. A delivery whose POST fails on the initial attempt and on the three retries makes
  exactly those four attempts, returns false, and leaves the pending ring as it was with one
  entry for the event appended (\<^verbatim>\<open>deque.append\<close>, so a full ring drops its oldest entry).
  A delivery whose attempt \<open>k\<close> (\<open>k < 4\<close>) is the first to succeed makes \<open>k + 1\<close> attempts,
  returns true and leaves the pending ring unchanged.
\<close>

theorem forward_event_retry_budget:
  "((\<forall>i<4. \<not> snd (attempt e et ed s i)) \<longrightarrow>
      \<not> fst (forward_event e et ed 0 s) \<and>
      failed_events (snd (forward_event e et ed 0 s)) =
        deque_append 100 (failed_events s) (et, ed, time_at e (tick s + 7)) \<and>
      posts (snd (forward_event e et ed 0 s)) =
        posts s @ [attempt e et ed s 0, attempt e et ed s 1, attempt e et ed s 2, attempt e et ed s 3]) \<and>
   (\<forall>k<4. (\<forall>i<k. \<not> snd (attempt e et ed s i)) \<and> snd (attempt e et ed s k) \<longrightarrow>
      fst (forward_event e et ed 0 s) \<and>
      failed_events (snd (forward_event e et ed 0 s)) = failed_events s \<and>
      posts (snd (forward_event e et ed 0 s)) = posts s @ map (attempt e et ed s) [0..<Suc k])"
proof (intro conjI impI allI)
  assume a: "\<forall>i<4. \<not> snd (attempt e et ed s i)"
  show "\<not> fst (forward_event e et ed 0 s)"
    "failed_events (snd (forward_event e et ed 0 s)) =
        deque_append 100 (failed_events s) (et, ed, time_at e (tick s + 7))"
    "posts (snd (forward_event e et ed 0 s)) =
        posts s @ [attempt e et ed s 0, attempt e et ed s 1, attempt e et ed s 2, attempt e et ed s 3]"
    by (simp_all add: forward_event_all_fail [OF a])
next
  fix k
  assume k: "k < 4" and b: "(\<forall>i<k. \<not> snd (attempt e et ed s i)) \<and> snd (attempt e et ed s k)"
  then have r: "forward_event e et ed 0 s =
     (True, s\<lparr>posts := posts s @ map (attempt e et ed s) [0..<Suc k], tick := tick s + 2 * k + 1\<rparr>)"
    using forward_event_first_success [of k e et ed s] by blast
  show "fst (forward_event e et ed 0 s)"
    "failed_events (snd (forward_event e et ed 0 s)) = failed_events s"
    "posts (snd (forward_event e et ed 0 s)) = posts s @ map (attempt e et ed s) [0..<Suc k]"
    by (simp_all add: r)
qed

theorem forward_event_retry_budget_witness:
  "\<not> snd (attempt (example_env (\<lambda>t. int t) (\<lambda>t. RequestException) (\<lambda>t v. RequestException) (\<lambda>t r. False))
              ''youtube.live.ended'' [] initial_sys 0) \<and>
   \<not> snd (attempt (example_env (\<lambda>t. int t) (\<lambda>t. RequestException) (\<lambda>t v. RequestException) (\<lambda>t r. False))
              ''youtube.live.ended'' [] initial_sys 1) \<and>
   \<not> snd (attempt (example_env (\<lambda>t. int t) (\<lambda>t. RequestException) (\<lambda>t v. RequestException) (\<lambda>t r. False))
              ''youtube.live.ended'' [] initial_sys 2) \<and>
   \<not> snd (attempt (example_env (\<lambda>t. int t) (\<lambda>t. RequestException) (\<lambda>t v. RequestException) (\<lambda>t r. False))
              ''youtube.live.ended'' [] initial_sys 3) \<and>
   \<not> fst (forward_event (example_env (\<lambda>t. int t) (\<lambda>t. RequestException) (\<lambda>t v. RequestException) (\<lambda>t r. False))
              ''youtube.live.ended'' [] 0 initial_sys) \<and>
   failed_events (snd (forward_event (example_env (\<lambda>t. int t) (\<lambda>t. RequestException) (\<lambda>t v. RequestException) (\<lambda>t r. False))
              ''youtube.live.ended'' [] 0 initial_sys)) = [(''youtube.live.ended'', [], 7)] \<and>
   \<not> snd (attempt (example_env (\<lambda>t. int t) (\<lambda>t. RequestException) (\<lambda>t v. RequestException) (\<lambda>t r. 2 \<le> t))
              ''youtube.live.ended'' [] initial_sys 0) \<and>
   snd (attempt (example_env (\<lambda>t. int t) (\<lambda>t. RequestException) (\<lambda>t v. RequestException) (\<lambda>t r. 2 \<le> t))
              ''youtube.live.ended'' [] initial_sys 1) \<and>
   fst (forward_event (example_env (\<lambda>t. int t) (\<lambda>t. RequestException) (\<lambda>t v. RequestException) (\<lambda>t r. 2 \<le> t))
              ''youtube.live.ended'' [] 0 initial_sys) \<and>
   failed_events (snd (forward_event (example_env (\<lambda>t. int t) (\<lambda>t. RequestException) (\<lambda>t v. RequestException) (\<lambda>t r. 2 \<le> t))
              ''youtube.live.ended'' [] 0 initial_sys)) = []"
proof -
  let ?a = "example_env (\<lambda>t. int t) (\<lambda>t. RequestException) (\<lambda>t v. RequestException) (\<lambda>t r. False)"
  let ?b = "example_env (\<lambda>t. int t) (\<lambda>t. RequestException) (\<lambda>t v. RequestException) (\<lambda>t r. 2 \<le> t)"
  have fa: "\<forall>i<4. \<not> snd (attempt ?a ''youtube.live.ended'' [] initial_sys i)"
    by (simp add: attempt_def example_env_def Let_def)
  have b0: "\<not> snd (attempt ?b ''youtube.live.ended'' [] initial_sys 0)"
    and b1: "snd (attempt ?b ''youtube.live.ended'' [] initial_sys 1)"
    by (simp_all add: attempt_def example_env_def initial_sys_def Let_def)
  have fb: "(\<forall>i<1. \<not> snd (attempt ?b ''youtube.live.ended'' [] initial_sys i)) \<and>
            snd (attempt ?b ''youtube.live.ended'' [] initial_sys 1)"
    using b0 b1 by simp
  from forward_event_retry_budget [of ?a "''youtube.live.ended''" "[]" initial_sys] fa
  have ra: "\<not> fst (forward_event ?a ''youtube.live.ended'' [] 0 initial_sys)"
    "failed_events (snd (forward_event ?a ''youtube.live.ended'' [] 0 initial_sys)) =
       deque_append 100 (failed_events initial_sys) (''youtube.live.ended'', [], time_at ?a (tick initial_sys + 7))"
    by blast+
  from forward_event_retry_budget [of ?b "''youtube.live.ended''" "[]" initial_sys] fb
  have rb: "fst (forward_event ?b ''youtube.live.ended'' [] 0 initial_sys)"
    "failed_events (snd (forward_event ?b ''youtube.live.ended'' [] 0 initial_sys)) = failed_events initial_sys"
    by (metis one_less_numeral_iff semiring_norm(76))+
  have "deque_append 100 (failed_events initial_sys) (''youtube.live.ended'', [], time_at ?a (tick initial_sys + 7))
        = [(''youtube.live.ended'', [], 7)]"
    by (simp add: deque_append_def initial_sys_def example_env_def)
  moreover have "failed_events initial_sys = []" by (simp add: initial_sys_def)
  ultimately show ?thesis using fa b0 b1 ra rb by simp
qed

lemma build_request_json:
  "json (build_request e et ed t) = \<lparr>event_type = et, event = ed, timestamp = t, source = ''youtube''\<rparr>"
  by (simp add: build_request_def Let_def)

lemma build_request_signature:
  "webhook_secret e \<noteq> [] \<Longrightarrow>
   map_of (headers (build_request e et ed t)) ''X-Hub-Signature'' =
     Some (''sha256='' @ hmac_sha256_hex e (webhook_secret e) (json_dumps e (json (build_request e et ed t))))"
  by (simp add: build_request_def Let_def generate_signature_def)

lemma forward_event_posts:
  "\<exists>new. posts (snd (forward_event e et ed rc s)) =
       posts s @ (build_request e et ed (now e s), http_post e (tick s) (build_request e et ed (now e s))) # new \<and>
     (\<forall>x \<in> set new. \<exists>t. fst x = build_request e et ed t)"
proof (induction e et ed rc s rule: forward_event.induct)
  case (1 e et ed rc s)
  let ?req = "build_request e et ed (now e s)"
  let ?ok = "http_post e (tick s) ?req"
  let ?s1 = "elapse (s\<lparr>posts := posts s @ [(?req, ?ok)]\<rparr>)"
  show ?case
  proof (cases "?ok")
    case True
    then show ?thesis
      by (subst forward_event.simps) (simp add: Let_def elapse_def)
  next
    case False
    show ?thesis
    proof (cases "rc < 3")
      case True
      from "1.IH" [OF refl refl refl False True]
      obtain new where n: "posts (snd (forward_event e et ed (rc + 1) (elapse ?s1))) =
          posts (elapse ?s1) @ (build_request e et ed (now e (elapse ?s1)),
             http_post e (tick (elapse ?s1)) (build_request e et ed (now e (elapse ?s1)))) # new"
        "\<forall>x \<in> set new. \<exists>t. fst x = build_request e et ed t"
        by blast
      have "forward_event e et ed rc s = forward_event e et ed (rc + 1) (elapse ?s1)"
        using False True by (subst forward_event.simps) (simp add: Let_def)
      then show ?thesis using n False
        by (auto simp: elapse_def)
    next
      case nr: False
      then show ?thesis using False
        by (subst forward_event.simps) (simp add: Let_def elapse_def)
    qed
  qed
qed

text \<open>
  Claim C9. With a secret configured (a non-empty string), every POST that a delivery makes
  carries the header \<^verbatim>\<open>X-Hub-Signature\<close> whose value is \<^verbatim>\<open>sha256=\<close> followed by the
  hex HMAC-SHA256, keyed by the secret, of \<^verbatim>\<open>json.dumps\<close> of the envelope; the envelope that
  is signed is the very envelope passed as the body of that POST, and it holds the event
  type, the event and the source \<^verbatim>\<open>youtube\<close> (its fourth member is the timestamp).
\<close>

theorem signature_header_over_envelope:
  assumes "webhook_secret e \<noteq> []"
    and "(req, ok) \<in> set (drop (length (posts s)) (posts (snd (forward_event e et ed rc s))))"
  shows "map_of (headers req) ''X-Hub-Signature'' =
           Some (''sha256='' @ hmac_sha256_hex e (webhook_secret e) (json_dumps e (json req))) \<and>
         event_type (json req) = et \<and> event (json req) = ed \<and> source (json req) = ''youtube''"
proof -
  from forward_event_posts [of e et ed rc s] obtain new where
    n: "posts (snd (forward_event e et ed rc s)) =
          posts s @ (build_request e et ed (now e s),
                     http_post e (tick s) (build_request e et ed (now e s))) # new"
       "\<forall>x \<in> set new. \<exists>t. fst x = build_request e et ed t"
    by blast
  from assms(2) n obtain t where "req = build_request e et ed t"
    by auto
  then show ?thesis
    using build_request_signature [OF assms(1), of et ed t] build_request_json [of e et ed t]
    by simp
qed

theorem signature_header_over_envelope_witness:
  "webhook_secret (example_env (\<lambda>t. 5) (\<lambda>t. RequestException) (\<lambda>t v. RequestException) (\<lambda>t r. True)) \<noteq> [] \<and>
   (build_request (example_env (\<lambda>t. 5) (\<lambda>t. RequestException) (\<lambda>t v. RequestException) (\<lambda>t r. True))
      ''youtube.live.ended'' [] 5, True)
     \<in> set (drop (length (posts initial_sys))
         (posts (snd (forward_event
            (example_env (\<lambda>t. 5) (\<lambda>t. RequestException) (\<lambda>t v. RequestException) (\<lambda>t r. True))
            ''youtube.live.ended'' [] 0 initial_sys)))) \<and>
   map_of (headers (build_request (example_env (\<lambda>t. 5) (\<lambda>t. RequestException) (\<lambda>t v. RequestException) (\<lambda>t r. True))
      ''youtube.live.ended'' [] 5)) ''X-Hub-Signature'' = Some ''sha256=syoutube.live.ended''"
proof -
  let ?e = "example_env (\<lambda>t. 5) (\<lambda>t. RequestException) (\<lambda>t v. RequestException) (\<lambda>t r. True)"
  let ?r = "build_request ?e ''youtube.live.ended'' [] 5"
  have s: "webhook_secret ?e \<noteq> []" by (simp add: example_env_def)
  have "forward_event ?e ''youtube.live.ended'' [] 0 initial_sys =
      (True, elapse (initial_sys\<lparr>posts := posts initial_sys @ [(?r, True)]\<rparr>))"
    by (subst forward_event.simps) (simp add: Let_def now_def example_env_def initial_sys_def)
  then have m: "(?r, True) \<in> set (drop (length (posts initial_sys))
         (posts (snd (forward_event ?e ''youtube.live.ended'' [] 0 initial_sys))))"
    by (simp add: elapse_def initial_sys_def)
  from signature_header_over_envelope [OF s m]
  have "map_of (headers ?r) ''X-Hub-Signature'' =
      Some (''sha256='' @ hmac_sha256_hex ?e (webhook_secret ?e) (json_dumps ?e (json ?r)))"
    by blast
  moreover have "hmac_sha256_hex ?e (webhook_secret ?e) (json_dumps ?e (json ?r)) = ''syoutube.live.ended''"
    by (simp add: example_env_def build_request_def Let_def)
  ultimately show ?thesis using s m by simp
qed



lemma last_deque_append [simp]: "last (deque_append n xs x) = x"
  by (simp add: deque_append_def)












section \<open>Properties of the callback handler\<close>

lemma do_GET_contrib_echoes:
  "map_of params ''hub.challenge'' = Some (c # cs) \<Longrightarrow> map_of params ''hub.mode'' \<noteq> Some [] \<Longrightarrow>
   do_GET_contrib params =
     Inl \<lparr>status = 200, content_type = Some ''text/plain'', response_body = c\<rparr>"
  by (auto simp: do_GET_contrib_def first_value_def get_or_def split: option.splits list.splits)

lemma do_GET_echoes_underscore_name:
  "path \<noteq> ''/data/events'' \<Longrightarrow> map_of params ''hub_challenge'' = Some (c # cs) \<Longrightarrow>
   map_of params ''hub_mode'' \<noteq> Some [] \<Longrightarrow>
   do_GET path params events_json =
     \<lparr>status = 200, content_type = Some ''text/plain'', response_body = c\<rparr>"
  by (auto simp: do_GET_def first_value_def get_or_def split: option.splits list.splits)

text \<open>
  Claim C8. The handler of the package (\<^verbatim>\<open>src/server/server.py\<close>) looks the challenge up
  under \<^verbatim>\<open>hub_challenge\<close>. A verification request of the subscription protocol carries it
  under \<^verbatim>\<open>hub.challenge\<close>; for such a request the handler answers 404 and the body is not
  the challenge. The handler of the single-file copy reads \<^verbatim>\<open>hub.challenge\<close> and echoes it
  (\<open>do_GET_contrib_echoes\<close>).
\<close>

theorem do_GET_misses_hub_challenge:
  "do_GET ''/youtube/callback?hub.mode=subscribe&hub.challenge=abc123''
     [(''hub.mode'', [''subscribe'']), (''hub.challenge'', [''abc123''])] events_json
   = \<lparr>status = 404, content_type = Some ''text/plain'',
      response_body = ''Not Found: /youtube/callback?hub.mode=subscribe&hub.challenge=abc123''\<rparr>"
  by (simp add: do_GET_def)

section \<open>Properties of the monitor\<close>

lemma emits_same [simp]: "emitted s' = emitted s \<Longrightarrow> emits P s s'"
  by (simp add: emits_def)

lemma emits_trans: "emits P s s1 \<Longrightarrow> emits P s1 s2 \<Longrightarrow> emits P s s2"
  by (auto simp: emits_def)

lemma emits_mono: "emits P s s' \<Longrightarrow> (\<And>ev. P ev \<Longrightarrow> Q ev) \<Longrightarrow> emits Q s s'"
  by (auto simp: emits_def)

lemma emits_new_events:
  "emits P s s' \<Longrightarrow> emitted s' = emitted s @ new_events s s' \<and> (\<forall>ev \<in> set (new_events s s'). P ev)"
  by (auto simp: emits_def new_events_def)

lemma new_events_append:
  "emits P s s1 \<Longrightarrow> emits Q s1 s2 \<Longrightarrow> new_events s s2 = new_events s s1 @ new_events s1 s2"
  by (auto simp: emits_def new_events_def)

lemma emits_field_update [simp]:
  "emits P s (s'\<lparr>active_streams := a\<rparr>) = emits P s s'"
  "emits P s (s'\<lparr>chat_page_tokens := c\<rparr>) = emits P s s'"
  "emits P (s\<lparr>active_streams := a\<rparr>) s' = emits P s s'"
  "emits P (s\<lparr>chat_page_tokens := c\<rparr>) s' = emits P s s'"
  by (simp_all add: emits_def)

lemma check_rate_limit_frame [simp]:
  "emitted (check_rate_limit e s) = emitted s"
  "active_streams (check_rate_limit e s) = active_streams s"
  "chat_page_tokens (check_rate_limit e s) = chat_page_tokens s"
  by (simp_all add: check_rate_limit_def Let_def elapse_def)

lemma record_api_call_frame [simp]:
  "emitted (record_api_call e operation s) = emitted s"
  "active_streams (record_api_call e operation s) = active_streams s"
  "chat_page_tokens (record_api_call e operation s) = chat_page_tokens s"
  by (simp_all add: record_api_call_def Let_def)

lemma elapse_frame [simp]:
  "emitted (elapse s) = emitted s"
  "active_streams (elapse s) = active_streams s"
  "chat_page_tokens (elapse s) = chat_page_tokens s"
  by (simp_all add: elapse_def)

lemma count_api_call_frame [simp]:
  "emitted (count_api_call s) = emitted s"
  "active_streams (count_api_call s) = active_streams s"
  "chat_page_tokens (count_api_call s) = chat_page_tokens s"
  by (simp_all add: count_api_call_def)

lemma handle_api_response_frame [simp]:
  "emitted (snd (handle_api_response b s)) = emitted s"
  "active_streams (snd (handle_api_response b s)) = active_streams s"
  "chat_page_tokens (snd (handle_api_response b s)) = chat_page_tokens s"
  by (simp_all add: handle_api_response_def split: body.splits)

lemma get_video_details_frame [simp]:
  "emitted (snd (get_video_details e v s)) = emitted s"
  "active_streams (snd (get_video_details e v s)) = active_streams s"
  "chat_page_tokens (snd (get_video_details e v s)) = chat_page_tokens s"
  by (auto simp: get_video_details_def Let_def handle_api_response_def
      split: http_result.splits body.splits list.splits)

lemma get_live_chat_messages_frame [simp]:
  "emitted (snd (get_live_chat_messages e c p s)) = emitted s"
  "active_streams (snd (get_live_chat_messages e c p s)) = active_streams s"
  "chat_page_tokens (snd (get_live_chat_messages e c p s)) = chat_page_tokens s"
  by (auto simp: get_live_chat_messages_def Let_def handle_api_response_def
      split: http_result.splits body.splits option.splits)

lemma get_live_broadcasts_frame [simp]:
  "emitted (snd (get_live_broadcasts e s)) = emitted s"
  "active_streams (snd (get_live_broadcasts e s)) = active_streams s"
  "chat_page_tokens (snd (get_live_broadcasts e s)) = chat_page_tokens s"
  by (auto simp: get_live_broadcasts_def Let_def handle_api_response_def
      split: http_result.splits body.splits)

lemma forward_and_count_frame [simp]:
  "emitted (forward_and_count e et ed s) = emitted s @ [(et, ed)]"
  "active_streams (forward_and_count e et ed s) = active_streams s"
  "chat_page_tokens (forward_and_count e et ed s) = chat_page_tokens s"
  using forward_event_frame [of e et ed 0 "s\<lparr>emitted := emitted s @ [(et, ed)]\<rparr>"]
  by (auto simp: forward_and_count_def split: prod.splits bool.splits)

lemma emits_forward_and_count: "P (et, ed) \<Longrightarrow> emits P s (forward_and_count e et ed s)"
  by (simp add: emits_def)

lemma chat_event_about:
  "chat_event v item = Some ev \<Longrightarrow> about v ev \<and> is_chat_type (fst ev)"
  by (auto simp: chat_event_def about_def is_chat_type_def split: chat_item.splits)

lemma chat_items_loop_frame [simp]:
  "active_streams (chat_items_loop e v its s) = active_streams s"
  "chat_page_tokens (chat_items_loop e v its s) = chat_page_tokens s"
  by (induction its arbitrary: s) (auto split: option.splits)

lemma chat_items_loop_emits:
  "emits (\<lambda>ev. about v ev \<and> is_chat_type (fst ev)) s (chat_items_loop e v its s)"
proof (induction its arbitrary: s)
  case Nil
  then show ?case by simp
next
  case (Cons item rest)
  show ?case
  proof (cases "chat_event v item")
    case None
    then show ?thesis using Cons.IH [of s] by simp
  next
    case (Some ev)
    obtain et ed where ev: "ev = (et, ed)" by (cases ev)
    have "emits (\<lambda>ev. about v ev \<and> is_chat_type (fst ev)) s (forward_and_count e et ed s)"
      using chat_event_about [OF Some] ev by (intro emits_forward_and_count) simp
    then show ?thesis
      using Cons.IH [of "forward_and_count e et ed s"] Some ev
      by (auto intro: emits_trans)
  qed
qed

lemma monitor_chat_frame [simp]:
  "active_streams (monitor_chat e v c s) = active_streams s"
  "w \<noteq> v \<Longrightarrow> map_of (chat_page_tokens (monitor_chat e v c s)) w = map_of (chat_page_tokens s) w"
proof -
  obtain r s1 where g: "get_live_chat_messages e c (map_of (chat_page_tokens s) v) s = (r, s1)"
    by force
  have f: "active_streams s1 = active_streams s" "chat_page_tokens s1 = chat_page_tokens s"
    using get_live_chat_messages_frame [of e c "map_of (chat_page_tokens s) v" s] g by simp_all
  show "active_streams (monitor_chat e v c s) = active_streams s"
    using g f by (simp add: monitor_chat_def split: option.splits)
  show "w \<noteq> v \<Longrightarrow> map_of (chat_page_tokens (monitor_chat e v c s)) w = map_of (chat_page_tokens s) w"
    using g f by (simp add: monitor_chat_def update_conv' split: option.splits)
qed

lemma monitor_chat_emits:
  "emits (\<lambda>ev. about v ev \<and> is_chat_type (fst ev)) s (monitor_chat e v c s)"
proof -
  obtain r s1 where g: "get_live_chat_messages e c (map_of (chat_page_tokens s) v) s = (r, s1)"
    by force
  have f: "emitted s1 = emitted s"
    using get_live_chat_messages_frame [of e c "map_of (chat_page_tokens s) v" s] g by simp
  show ?thesis
  proof (cases r)
    case None
    then show ?thesis using g f by (simp add: monitor_chat_def)
  next
    case (Some cd)
    let ?s2 = "(count_api_call s1)\<lparr>chat_page_tokens :=
               AList.update v (get_or (nextPageToken cd) []) (chat_page_tokens s1)\<rparr>"
    have "emits (\<lambda>ev. about v ev \<and> is_chat_type (fst ev)) ?s2 (chat_items_loop e v (items cd) ?s2)"
      by (rule chat_items_loop_emits)
    moreover have "emitted ?s2 = emitted s" using f by simp
    ultimately have "emits (\<lambda>ev. about v ev \<and> is_chat_type (fst ev)) s (chat_items_loop e v (items cd) ?s2)"
      by (simp add: emits_def)
    then show ?thesis using g Some by (simp add: monitor_chat_def)
  qed
qed

lemma chat_if_available_frame [simp]:
  "active_streams (chat_if_available e v l s) = active_streams s"
  "w \<noteq> v \<Longrightarrow> map_of (chat_page_tokens (chat_if_available e v l s)) w = map_of (chat_page_tokens s) w"
  by (simp_all add: chat_if_available_def split: option.splits)

lemma chat_if_available_emits:
  "emits (\<lambda>ev. about v ev \<and> is_chat_type (fst ev)) s (chat_if_available e v l s)"
  by (simp add: chat_if_available_def monitor_chat_emits split: option.splits)

lemma chat_type_broadcast_event:
  "about v ev \<and> is_chat_type (fst ev) \<Longrightarrow> broadcast_event v ev"
  by (simp add: broadcast_event_def)

lemma emits_chat_after:
  assumes "emits (broadcast_event v) s s3"
  shows "emits (broadcast_event v) s (chat_if_available e v l s3)"
  using assms emits_mono [OF chat_if_available_emits [of v s3 e l], of "broadcast_event v"]
  by (blast intro: emits_trans chat_type_broadcast_event)

lemma process_broadcast_emits:
  "emits (broadcast_event v) s (snd (process_broadcast e v s))"
proof -
  obtain details s0 where g: "get_video_details e v s = (details, s0)" by force
  have f: "emitted s0 = emitted s"
    using get_video_details_frame(1) [of e v s] g by simp
  show ?thesis
  proof (cases details)
    case None
    then show ?thesis using g f by (simp add: process_broadcast_def)
  next
    case (Some d)
    show ?thesis
    proof (cases "map_of (active_streams (count_api_call s0)) v")
      case None
      show ?thesis
      proof (cases "liveStreamingDetails d")
        case nl: None
        then show ?thesis using g f Some None by (simp add: process_broadcast_def Let_def)
      next
        case (Some l)
        let ?s2 = "(count_api_call s0)\<lparr>active_streams := AList.update v d (active_streams (count_api_call s0))\<rparr>"
        let ?ed = "[(''video_id'', JStr v),
                    (''title'', JStr (title (snippet d))),
                    (''description'', JStr (description (snippet d))),
                    (''channel_id'', JStr (channelId (snippet d))),
                    (''channel_title'', JStr (channelTitle (snippet d))),
                    (''started_at'', opt_str (actualStartTime l)),
                    (''scheduled_start'', opt_str (scheduledStartTime l)),
                    (''concurrent_viewers'', JInt (get_or (concurrentViewers l) 0))]"
        have "broadcast_event v (''youtube.live.started'', ?ed)"
          by (simp add: broadcast_event_def about_def)
        then have "emits (broadcast_event v) s (forward_and_count e ''youtube.live.started'' ?ed ?s2)"
          using f by (simp add: emits_def)
        then have "emits (broadcast_event v) s
             (chat_if_available e v l (forward_and_count e ''youtube.live.started'' ?ed ?s2))"
          by (rule emits_chat_after)
        then show ?thesis using g \<open>details = Some d\<close> None Some
          by (simp add: process_broadcast_def Let_def)
      qed
    next
      case (Some old_details)
      let ?s1 = "count_api_call s0"
      let ?old = "viewers_of old_details"
      let ?new = "viewers_of d"
      let ?ed = "[(''video_id'', JStr v), (''concurrent_viewers'', JInt ?new), (''previous_viewers'', JInt ?old)]"
      let ?s2 = "if full_threshold ?old ?new
                 then forward_and_count e ''youtube.live.viewers_updated'' ?ed ?s1 else ?s1"
      let ?s3 = "?s2\<lparr>active_streams := AList.update v d (active_streams ?s2)\<rparr>"
      have "full_threshold ?old ?new \<Longrightarrow> broadcast_event v (''youtube.live.viewers_updated'', ?ed)"
        by (simp add: broadcast_event_def about_def)
      then have e3: "emits (broadcast_event v) s ?s3"
        using f by (simp add: emits_def)
      have r: "process_broadcast e v s =
          (case liveStreamingDetails d of
             None \<Rightarrow> (Some (KeyError ''liveStreamingDetails''), ?s3)
           | Some l \<Rightarrow> (None, chat_if_available e v l ?s3))"
        using g \<open>details = Some d\<close> Some
        by (cases "full_threshold ?old ?new")
           (auto simp: process_broadcast_def Let_def full_threshold_def over_ten_percent_def)
      show ?thesis
      proof (cases "liveStreamingDetails d")
        case None
        with r have "snd (process_broadcast e v s) = ?s3" by simp
        then show ?thesis by (simp only: e3)
      next
        case (Some l)
        with r have "snd (process_broadcast e v s) = chat_if_available e v l ?s3" by simp
        then show ?thesis by (simp only: emits_chat_after [OF e3])
      qed
    qed
  qed
qed

lemma process_broadcast_others:
  assumes "w \<noteq> v"
  shows "map_of (active_streams (snd (process_broadcast e v s))) w = map_of (active_streams s) w"
    and "map_of (chat_page_tokens (snd (process_broadcast e v s))) w = map_of (chat_page_tokens s) w"
proof -
  obtain details s0 where g: "get_video_details e v s = (details, s0)" by force
  have f: "active_streams s0 = active_streams s" "chat_page_tokens s0 = chat_page_tokens s"
    using get_video_details_frame [of e v s] g by simp_all
  show "map_of (active_streams (snd (process_broadcast e v s))) w = map_of (active_streams s) w"
    using g f assms
    by (simp add: process_broadcast_def Let_def update_conv' split: option.splits)
  show "map_of (chat_page_tokens (snd (process_broadcast e v s))) w = map_of (chat_page_tokens s) w"
    using g f assms
    by (simp add: process_broadcast_def Let_def split: option.splits)
qed

lemma process_broadcast_no_details:
  assumes "fst (get_video_details e v s) = None"
  shows "fst (process_broadcast e v s) = None"
    and "emitted (snd (process_broadcast e v s)) = emitted s"
    and "active_streams (snd (process_broadcast e v s)) = active_streams s"
    and "chat_page_tokens (snd (process_broadcast e v s)) = chat_page_tokens s"
proof -
  obtain s0 where g: "get_video_details e v s = (None, s0)"
    using assms by (cases "get_video_details e v s") simp
  have f: "emitted s0 = emitted s" "active_streams s0 = active_streams s" "chat_page_tokens s0 = chat_page_tokens s"
    using get_video_details_frame [of e v s] g by simp_all
  show "fst (process_broadcast e v s) = None"
    "emitted (snd (process_broadcast e v s)) = emitted s"
    "active_streams (snd (process_broadcast e v s)) = active_streams s"
    "chat_page_tokens (snd (process_broadcast e v s)) = chat_page_tokens s"
    using g f by (simp_all add: process_broadcast_def)
qed

lemma broadcast_event_other: "broadcast_event w ev \<Longrightarrow> w \<noteq> v \<Longrightarrow> \<not> about v ev"
  by (auto simp: broadcast_event_def about_def)

lemma broadcast_event_not_ended: "broadcast_event w ev \<Longrightarrow> fst ev \<noteq> ''youtube.live.ended''"
  by (auto simp: broadcast_event_def is_chat_type_def)

lemma broadcasts_loop_emits:
  "emits (\<lambda>ev. \<exists>w \<in> set ids. broadcast_event w ev) s (snd (snd (broadcasts_loop e ids cur s)))"
proof (induction ids arbitrary: cur s)
  case Nil
  then show ?case by simp
next
  case (Cons v rest)
  obtain err s1 where p: "process_broadcast e v s = (err, s1)" by force
  have e1: "emits (\<lambda>ev. \<exists>w \<in> set (v # rest). broadcast_event w ev) s s1"
    using emits_mono [OF process_broadcast_emits [of v s e]] p by auto
  show ?case
  proof (cases err)
    case None
    have "emits (\<lambda>ev. \<exists>w \<in> set (v # rest). broadcast_event w ev) s1
            (snd (snd (broadcasts_loop e rest (insert v cur) s1)))"
      using emits_mono [OF Cons.IH [where cur = "insert v cur" and s = s1]] by auto
    then show ?thesis using p None e1 by (auto intro: emits_trans)
  next
    case (Some a)
    then show ?thesis using p e1 by simp
  qed
qed

lemma broadcasts_loop_others:
  assumes "w \<notin> set ids"
  shows "map_of (active_streams (snd (snd (broadcasts_loop e ids cur s)))) w = map_of (active_streams s) w \<and>
         map_of (chat_page_tokens (snd (snd (broadcasts_loop e ids cur s)))) w = map_of (chat_page_tokens s) w"
  using assms
proof (induction ids arbitrary: cur s)
  case Nil
  then show ?case by simp
next
  case (Cons v rest)
  obtain err s1 where p: "process_broadcast e v s = (err, s1)" by force
  have o: "map_of (active_streams s1) w = map_of (active_streams s) w"
    "map_of (chat_page_tokens s1) w = map_of (chat_page_tokens s) w"
    using process_broadcast_others [of w v e s] p Cons.prems by auto
  show ?case
  proof (cases err)
    case None
    then show ?thesis using p o Cons.IH [where cur = "insert v cur" and s = s1] Cons.prems by simp
  next
    case (Some a)
    then show ?thesis using p o by simp
  qed
qed

lemma broadcasts_loop_current:
  "fst (broadcasts_loop e ids cur s) = None \<Longrightarrow>
   fst (snd (broadcasts_loop e ids cur s)) = cur \<union> set ids"
proof (induction ids arbitrary: cur s)
  case Nil
  then show ?case by simp
next
  case (Cons v rest)
  obtain err s1 where p: "process_broadcast e v s = (err, s1)" by force
  show ?case
  proof (cases err)
    case None
    then show ?thesis using p Cons.IH [where cur = "insert v cur" and s = s1] Cons.prems by simp
  next
    case (Some a)
    then show ?thesis using p Cons.prems by simp
  qed
qed

lemma broadcasts_loop_no_details:
  assumes n: "\<And>s. fst (get_video_details e v s) = None"
  shows "emits (\<lambda>ev. \<not> about v ev) s (snd (snd (broadcasts_loop e ids cur s))) \<and>
         map_of (active_streams (snd (snd (broadcasts_loop e ids cur s)))) v = map_of (active_streams s) v \<and>
         map_of (chat_page_tokens (snd (snd (broadcasts_loop e ids cur s)))) v = map_of (chat_page_tokens s) v"
proof (induction ids arbitrary: cur s)
  case Nil
  then show ?case by simp
next
  case (Cons w rest)
  obtain err s1 where p: "process_broadcast e w s = (err, s1)" by force
  have step: "emits (\<lambda>ev. \<not> about v ev) s s1 \<and>
      map_of (active_streams s1) v = map_of (active_streams s) v \<and>
      map_of (chat_page_tokens s1) v = map_of (chat_page_tokens s) v"
  proof (cases "w = v")
    case True
    then show ?thesis using process_broadcast_no_details [OF n, of s] p by simp
  next
    case False
    have "emits (\<lambda>ev. \<not> about v ev) s s1"
      using emits_mono [OF process_broadcast_emits [of w s e], of "\<lambda>ev. \<not> about v ev"] p False
      by (auto dest: broadcast_event_other)
    then show ?thesis using process_broadcast_others [of v w e s] p False by auto
  qed
  show ?case
  proof (cases err)
    case None
    then show ?thesis using p step Cons.IH [where cur = "insert w cur" and s = s1]
      by (auto intro: emits_trans)
  next
    case (Some a)
    then show ?thesis using p step by simp
  qed
qed

lemma end_stream_tracked:
  assumes "map_of (active_streams s) w = Some d"
  shows "fst (end_stream e w s) = None"
    and "\<exists>ed. emitted (snd (end_stream e w s)) = emitted s @ [(''youtube.live.ended'', ed)] \<and>
              (\<forall>v. about v (''youtube.live.ended'', ed) = (v = w))"
    and "active_streams (snd (end_stream e w s)) = AList.delete w (active_streams s)"
    and "chat_page_tokens (snd (end_stream e w s)) = AList.delete w (chat_page_tokens s)"
  using assms by (auto simp: end_stream_def Let_def about_def)

lemma ended_loop_effect:
  assumes "distinct ids" and "\<forall>w \<in> set ids. map_of (active_streams s) w \<noteq> None"
  shows "fst (ended_loop e ids s) = None \<and>
     (\<exists>evs. emitted (snd (ended_loop e ids s)) = emitted s @ evs \<and>
        (\<forall>ev \<in> set evs. fst ev = ''youtube.live.ended'') \<and>
        (\<forall>v. length (filter (about v) evs) = (if v \<in> set ids then 1 else 0))) \<and>
     (\<forall>v. map_of (active_streams (snd (ended_loop e ids s))) v =
           (if v \<in> set ids then None else map_of (active_streams s) v)) \<and>
     (\<forall>v. map_of (chat_page_tokens (snd (ended_loop e ids s))) v =
           (if v \<in> set ids then None else map_of (chat_page_tokens s) v))"
  using assms
proof (induction ids arbitrary: s)
  case Nil
  then show ?case by simp
next
  case (Cons w rest)
  from Cons.prems obtain d where d: "map_of (active_streams s) w = Some d" by auto
  obtain s1 where s1: "end_stream e w s = (None, s1)"
    using end_stream_tracked(1) [OF d, of e] by (cases "end_stream e w s") simp
  from end_stream_tracked(2) [OF d, of e] s1 obtain ed where
    ed: "emitted s1 = emitted s @ [(''youtube.live.ended'', ed)]"
        "\<forall>v. about v (''youtube.live.ended'', ed) = (v = w)" by auto
  have a1: "active_streams s1 = AList.delete w (active_streams s)"
    and c1: "chat_page_tokens s1 = AList.delete w (chat_page_tokens s)"
    using end_stream_tracked(3,4) [OF d, of e] s1 by simp_all
  have pre: "distinct rest" "\<forall>u \<in> set rest. map_of (active_streams s1) u \<noteq> None"
    using Cons.prems a1 by (auto simp: delete_conv')
  from Cons.IH [OF pre] obtain evs where
    ih: "fst (ended_loop e rest s1) = None"
        "emitted (snd (ended_loop e rest s1)) = emitted s1 @ evs"
        "\<forall>ev \<in> set evs. fst ev = ''youtube.live.ended''"
        "\<forall>v. length (filter (about v) evs) = (if v \<in> set rest then 1 else 0)"
        "\<forall>v. map_of (active_streams (snd (ended_loop e rest s1))) v =
           (if v \<in> set rest then None else map_of (active_streams s1) v)"
        "\<forall>v. map_of (chat_page_tokens (snd (ended_loop e rest s1))) v =
           (if v \<in> set rest then None else map_of (chat_page_tokens s1) v)"
    by blast
  have r: "ended_loop e (w # rest) s = ended_loop e rest s1" using s1 by simp
  have "emitted (snd (ended_loop e rest s1)) = emitted s @ ((''youtube.live.ended'', ed) # evs)"
    using ih(2) ed(1) by simp
  moreover have "\<forall>ev \<in> set ((''youtube.live.ended'', ed) # evs). fst ev = ''youtube.live.ended''"
    using ih(3) by simp
  moreover have "\<forall>v. length (filter (about v) ((''youtube.live.ended'', ed) # evs)) =
      (if v \<in> set (w # rest) then 1 else 0)"
    using ih(4) ed(2) Cons.prems(1) by auto
  moreover have "\<forall>v. map_of (active_streams (snd (ended_loop e rest s1))) v =
           (if v \<in> set (w # rest) then None else map_of (active_streams s) v)"
    using ih(5) a1 by (auto simp: delete_conv')
  moreover have "\<forall>v. map_of (chat_page_tokens (snd (ended_loop e rest s1))) v =
           (if v \<in> set (w # rest) then None else map_of (chat_page_tokens s) v)"
    using ih(6) c1 by (auto simp: delete_conv')
  ultimately show ?case unfolding r using ih(1) by blast
qed

lemma ended_streams_props:
  "distinct (ended_streams s cur)"
  "\<forall>w \<in> set (ended_streams s cur). map_of (active_streams s) w \<noteq> None"
  "v \<in> set (ended_streams s cur) \<longleftrightarrow> map_of (active_streams s) v \<noteq> None \<and> v \<notin> cur"
  by (auto simp: ended_streams_def map_of_eq_None_iff image_iff)

lemma full_check_unfold:
  assumes "full_check_due e s"
    and "get_live_broadcasts e (s\<lparr>last_broadcast_check := now e s\<rparr>) = (bs, s1)"
    and "broadcasts_loop e bs {} (count_api_call s1) = (err, cur, s2)"
  shows "check_live_streams e s =
     (case err of Some x \<Rightarrow> (Some x, s2) | None \<Rightarrow> ended_loop e (ended_streams s2 cur) s2)"
  using assms by (simp add: check_live_streams_def split: option.splits)

lemma full_check_parts:
  assumes "full_check_due e s"
  obtains s1 err cur s2 where
    "get_live_broadcasts e (s\<lparr>last_broadcast_check := now e s\<rparr>) = (listed e s, s1)"
    "broadcasts_loop e (listed e s) {} (count_api_call s1) = (err, cur, s2)"
    "emitted (count_api_call s1) = emitted s"
    "active_streams (count_api_call s1) = active_streams s"
    "chat_page_tokens (count_api_call s1) = chat_page_tokens s"
    "check_live_streams e s =
       (case err of Some x \<Rightarrow> (Some x, s2) | None \<Rightarrow> ended_loop e (ended_streams s2 cur) s2)"
proof -
  let ?sa = "s\<lparr>last_broadcast_check := now e s\<rparr>"
  obtain s1 where g: "get_live_broadcasts e ?sa = (listed e s, s1)"
    by (cases "get_live_broadcasts e ?sa") (simp add: listed_def)
  obtain err cur s2 where b: "broadcasts_loop e (listed e s) {} (count_api_call s1) = (err, cur, s2)"
    by (cases "broadcasts_loop e (listed e s) {} (count_api_call s1)") auto
  have f: "emitted (count_api_call s1) = emitted s"
    "active_streams (count_api_call s1) = active_streams s"
    "chat_page_tokens (count_api_call s1) = chat_page_tokens s"
    using get_live_broadcasts_frame [of e ?sa] g by simp_all
  show ?thesis
    using that [OF g b f full_check_unfold [OF assms g b]] .
qed

lemma forward_event_success:
  "http_post e (tick s) (build_request e et ed (now e s)) \<Longrightarrow>
   forward_event e et ed rc s =
     (True, elapse (s\<lparr>posts := posts s @ [(build_request e et ed (now e s), True)]\<rparr>))"
  by (subst forward_event.simps) (simp add: Let_def)

lemmas run_defs =
  check_live_streams_def full_check_due_def listed_def get_live_broadcasts_def
  get_video_details_def check_rate_limit_def record_api_call_def handle_api_response_def
  elapse_def now_def count_api_call_def ended_streams_def end_stream_def
  forward_and_count_def process_broadcast_def refresh_stream_def chat_if_available_def
  viewers_of_def get_or_def over_ten_percent_def opt_str_def
  example_env_def initial_sys_def example_video_def second_def deque_append_def
  utc_date_def quota_costs_def forward_event_success Let_def

lemma full_check_ends_omitted:
  assumes due: "full_check_due e s"
    and tracked: "map_of (active_streams s) v \<noteq> None"
    and absent: "v \<notin> set (listed e s)"
    and completes: "fst (check_live_streams e s) = None"
  shows "length (filter (ended_for v) (new_events s (snd (check_live_streams e s)))) = 1 \<and>
         map_of (active_streams (snd (check_live_streams e s))) v = None \<and>
         map_of (chat_page_tokens (snd (check_live_streams e s))) v = None"
proof -
  from due obtain s1 err cur s2 where
    b: "broadcasts_loop e (listed e s) {} (count_api_call s1) = (err, cur, s2)"
    and f: "emitted (count_api_call s1) = emitted s"
      "active_streams (count_api_call s1) = active_streams s"
    and c: "check_live_streams e s =
       (case err of Some x \<Rightarrow> (Some x, s2) | None \<Rightarrow> ended_loop e (ended_streams s2 cur) s2)"
    by (rule full_check_parts)
  have err: "err = None" using c completes by (cases err) simp_all
  then have cur: "cur = set (listed e s)"
    using broadcasts_loop_current [of e "listed e s" "{}" "count_api_call s1"] b by simp
  have act: "map_of (active_streams s2) v = map_of (active_streams s) v"
    using broadcasts_loop_others [OF absent, of e "{}" "count_api_call s1"] b f by simp
  obtain evs1 where evs1: "emitted s2 = emitted s @ evs1"
      "\<forall>ev \<in> set evs1. \<exists>w \<in> set (listed e s). broadcast_event w ev"
    using broadcasts_loop_emits [of "listed e s" "count_api_call s1" e "{}"] b f
    by (auto simp: emits_def)
  let ?ids = "ended_streams s2 cur"
  have v: "v \<in> set ?ids"
    using ended_streams_props(3) [of v s2 cur] act tracked absent cur by simp
  have di: "distinct ?ids" by (rule ended_streams_props(1))
  have ks: "\<forall>w \<in> set ?ids. map_of (active_streams s2) w \<noteq> None" by (rule ended_streams_props(2))
  from ended_loop_effect [OF di ks, of e] obtain evs2 where
    evs2: "emitted (snd (ended_loop e ?ids s2)) = emitted s2 @ evs2"
      "\<forall>ev \<in> set evs2. fst ev = ''youtube.live.ended''"
      "\<forall>u. length (filter (about u) evs2) = (if u \<in> set ?ids then 1 else 0)"
    and maps: "\<forall>u. map_of (active_streams (snd (ended_loop e ?ids s2))) u =
           (if u \<in> set ?ids then None else map_of (active_streams s2) u)"
      "\<forall>u. map_of (chat_page_tokens (snd (ended_loop e ?ids s2))) u =
           (if u \<in> set ?ids then None else map_of (chat_page_tokens s2) u)"
    by blast
  have r: "check_live_streams e s = ended_loop e ?ids s2" using c err by simp
  have new: "new_events s (snd (check_live_streams e s)) = evs1 @ evs2"
    using evs1(1) evs2(1) r by (simp add: new_events_def)
  have "filter (ended_for v) evs1 = []"
    using evs1(2) by (auto simp: ended_for_def filter_empty_conv dest: broadcast_event_not_ended)
  moreover have "filter (ended_for v) evs2 = filter (about v) evs2"
    using evs2(2) by (intro filter_cong) (auto simp: ended_for_def)
  ultimately have "length (filter (ended_for v) (new_events s (snd (check_live_streams e s)))) = 1"
    using new evs2(3) v by simp
  then show ?thesis using maps v r by simp
qed

lemma get_video_details_value:
  "fst (get_video_details e v s) =
     (if quota_exceeded s then None else first_item (videos_get e (tick (check_rate_limit e s)) v))"
  by (simp add: get_video_details_def Let_def handle_api_response_def first_item_def
      split: http_result.splits body.splits list.splits)

lemma get_video_details_result:
  "fst (get_video_details e v s) = None \<or>
   (\<exists>t. fst (get_video_details e v s) = first_item (videos_get e t v))"
  by (auto simp: get_video_details_value)

lemma details_unavailable_None:
  "details_unavailable e v \<Longrightarrow> fst (get_video_details e v s) = None"
  using get_video_details_result [of e v s] by (auto simp: details_unavailable_def)

lemma live_details_unavailable_cases:
  assumes "live_details_unavailable e v"
  shows "case fst (get_video_details e v s) of None \<Rightarrow> True | Some d \<Rightarrow> liveStreamingDetails d = None"
proof -
  from get_video_details_result [of e v s] show ?thesis
  proof
    assume "fst (get_video_details e v s) = None"
    then show ?thesis by simp
  next
    assume "\<exists>t. fst (get_video_details e v s) = first_item (videos_get e t v)"
    then obtain t where "fst (get_video_details e v s) = first_item (videos_get e t v)" ..
    then show ?thesis using assms by (simp add: live_details_unavailable_def)
  qed
qed

lemma map_fst_update_present:
  "map_of al k = Some x \<Longrightarrow> map fst (AList.update k v al) = map fst al"
  by (auto simp: update_keys dest: map_of_SomeD intro: rev_image_eqI)

lemma refresh_stream_emits:
  "emits (light_event (active_streams s) w) s (snd (refresh_stream e w s))"
proof -
  obtain details s0 where g: "get_video_details e w s = (details, s0)" by force
  have f: "emitted s0 = emitted s" "active_streams s0 = active_streams s"
    using get_video_details_frame [of e w s] g by simp_all
  show ?thesis
    using g f
    by (auto simp: refresh_stream_def Let_def emits_def light_event_def about_def
        light_threshold_def over_ten_percent_def split: option.splits)
qed

lemma refresh_stream_frame:
  "map fst (active_streams (snd (refresh_stream e w s))) = map fst (active_streams s)"
  "u \<noteq> w \<Longrightarrow> map_of (active_streams (snd (refresh_stream e w s))) u = map_of (active_streams s) u"
  "chat_page_tokens (snd (refresh_stream e w s)) = chat_page_tokens s"
proof -
  obtain details s0 where g: "get_video_details e w s = (details, s0)" by force
  have f: "active_streams s0 = active_streams s" "chat_page_tokens s0 = chat_page_tokens s"
    using get_video_details_frame [of e w s] g by simp_all
  show "map fst (active_streams (snd (refresh_stream e w s))) = map fst (active_streams s)"
    using g f
    by (auto simp: refresh_stream_def Let_def map_fst_update_present split: option.splits)
  show "u \<noteq> w \<Longrightarrow> map_of (active_streams (snd (refresh_stream e w s))) u = map_of (active_streams s) u"
    using g f
    by (auto simp: refresh_stream_def Let_def update_conv' split: option.splits)
  show "chat_page_tokens (snd (refresh_stream e w s)) = chat_page_tokens s"
    using g f
    by (auto simp: refresh_stream_def Let_def split: option.splits)
qed

lemma refresh_stream_no_live:
  assumes "case fst (get_video_details e w s) of None \<Rightarrow> True | Some d \<Rightarrow> liveStreamingDetails d = None"
  shows "fst (refresh_stream e w s) = None"
    and "emitted (snd (refresh_stream e w s)) = emitted s"
    and "active_streams (snd (refresh_stream e w s)) = active_streams s"
proof -
  obtain details s0 where g: "get_video_details e w s = (details, s0)" by force
  have f: "emitted s0 = emitted s" "active_streams s0 = active_streams s"
    using get_video_details_frame [of e w s] g by simp_all
  show "fst (refresh_stream e w s) = None"
    "emitted (snd (refresh_stream e w s)) = emitted s"
    "active_streams (snd (refresh_stream e w s)) = active_streams s"
    using g f assms by (auto simp: refresh_stream_def Let_def split: option.splits)
qed



lemma refresh_loop_frame:
  "map fst (active_streams (snd (refresh_loop e ids s))) = map fst (active_streams s) \<and>
   chat_page_tokens (snd (refresh_loop e ids s)) = chat_page_tokens s \<and>
   emits (\<lambda>ev. fst ev = ''youtube.live.viewers_updated'') s (snd (refresh_loop e ids s))"
proof (induction ids arbitrary: s)
  case Nil
  then show ?case by simp
next
  case (Cons w rest)
  obtain err s1 where p: "refresh_stream e w s = (err, s1)" by force
  have f: "map fst (active_streams s1) = map fst (active_streams s)"
    "chat_page_tokens s1 = chat_page_tokens s"
    using refresh_stream_frame(1,3) [of e w s] p by simp_all
  have e1: "emits (\<lambda>ev. fst ev = ''youtube.live.viewers_updated'') s s1"
    using emits_mono [OF refresh_stream_emits [of s w e]] p by (auto simp: light_event_def)
  show ?case
  proof (cases err)
    case (Some a)
    then show ?thesis using p f e1 by simp
  next
    case None
    then show ?thesis using p f e1 Cons.IH [of s1] by (auto intro: emits_trans)
  qed
qed

lemma light_event_other: "light_event streams w ev \<Longrightarrow> w \<noteq> v \<Longrightarrow> \<not> about v ev"
  by (auto simp: light_event_def about_def)

lemma refresh_loop_no_live:
  assumes n: "live_details_unavailable e v"
  shows "emits (\<lambda>ev. \<not> about v ev) s (snd (refresh_loop e ids s)) \<and>
         map_of (active_streams (snd (refresh_loop e ids s))) v = map_of (active_streams s) v"
proof (induction ids arbitrary: s)
  case Nil
  then show ?case by simp
next
  case (Cons w rest)
  obtain err s1 where p: "refresh_stream e w s = (err, s1)" by force
  have step: "emits (\<lambda>ev. \<not> about v ev) s s1 \<and>
      map_of (active_streams s1) v = map_of (active_streams s) v"
  proof (cases "w = v")
    case True
    then show ?thesis
      using refresh_stream_no_live(2,3) [OF live_details_unavailable_cases [OF n], of s] p by simp
  next
    case False
    have "emits (\<lambda>ev. \<not> about v ev) s s1"
      using emits_mono [OF refresh_stream_emits [of s w e], of "\<lambda>ev. \<not> about v ev"] p False
      by (auto dest: light_event_other)
    then show ?thesis using refresh_stream_frame(2) [of v w e s] p False by auto
  qed
  show ?case
  proof (cases err)
    case (Some a)
    then show ?thesis using p step by simp
  next
    case None
    then show ?thesis using p step Cons.IH [of s1] by (auto intro: emits_trans)
  qed
qed







lemma about_unique: "about w ev \<Longrightarrow> about v ev \<Longrightarrow> v = w"
  by (simp add: about_def)

lemma map_of_all_None: "(\<And>k. map_of al k = None) \<Longrightarrow> al = []"
proof (cases al)
  case Nil
  then show ?thesis by simp
next
  case (Cons p rest)
  assume "\<And>k. map_of al k = None"
  from this [of "fst p"] Cons show ?thesis by (cases p) simp
qed

lemma ended_loop_about:
  assumes "distinct ids" and "\<forall>w \<in> set ids. map_of (active_streams s) w \<noteq> None"
  shows "emits (\<lambda>ev. fst ev = ''youtube.live.ended'' \<and> (\<exists>w \<in> set ids. about w ev)) s
           (snd (ended_loop e ids s))"
  using assms
proof (induction ids arbitrary: s)
  case Nil
  then show ?case by simp
next
  case (Cons w rest)
  from Cons.prems obtain d where d: "map_of (active_streams s) w = Some d" by auto
  obtain s1 where s1: "end_stream e w s = (None, s1)"
    using end_stream_tracked(1) [OF d, of e] by (cases "end_stream e w s") simp
  from end_stream_tracked(2) [OF d, of e] s1 obtain ed where
    ed: "emitted s1 = emitted s @ [(''youtube.live.ended'', ed)]"
        "\<forall>v. about v (''youtube.live.ended'', ed) = (v = w)" by auto
  have a1: "active_streams s1 = AList.delete w (active_streams s)"
    using end_stream_tracked(3) [OF d, of e] s1 by simp
  have pre: "distinct rest" "\<forall>u \<in> set rest. map_of (active_streams s1) u \<noteq> None"
    using Cons.prems a1 by (auto simp: delete_conv')
  have e1: "emits (\<lambda>ev. fst ev = ''youtube.live.ended'' \<and> (\<exists>u \<in> set (w # rest). about u ev)) s s1"
    using ed by (auto simp: emits_def)
  have "emits (\<lambda>ev. fst ev = ''youtube.live.ended'' \<and> (\<exists>u \<in> set (w # rest). about u ev)) s1
          (snd (ended_loop e rest s1))"
    using emits_mono [OF Cons.IH [OF pre]] by auto
  then show ?case using s1 e1 by (auto intro: emits_trans)
qed

text \<open>What a full check emits: events of the listed broadcasts, then ended events of tracked
  identifiers that the list omits.\<close>

lemma full_check_structure:
  assumes due: "full_check_due e s"
  shows "emits (\<lambda>ev. (\<exists>w \<in> set (listed e s). broadcast_event w ev) \<or>
                      fst ev = ''youtube.live.ended'' \<and>
                      (\<exists>w. about w ev \<and> map_of (active_streams s) w \<noteq> None \<and> w \<notin> set (listed e s)))
           s (snd (check_live_streams e s))"
    (is "emits ?P s _")
proof -
  from due obtain s1 err cur s2 where
    b: "broadcasts_loop e (listed e s) {} (count_api_call s1) = (err, cur, s2)"
    and f: "emitted (count_api_call s1) = emitted s"
      "active_streams (count_api_call s1) = active_streams s"
    and c: "check_live_streams e s =
       (case err of Some x \<Rightarrow> (Some x, s2) | None \<Rightarrow> ended_loop e (ended_streams s2 cur) s2)"
    by (rule full_check_parts)
  have "emits (\<lambda>ev. \<exists>w \<in> set (listed e s). broadcast_event w ev) (count_api_call s1) s2"
    using broadcasts_loop_emits [of "listed e s" "count_api_call s1" e "{}"] b by simp
  then have e1: "emits ?P s s2"
    using f(1) by (auto simp: emits_def)
  show ?thesis
  proof (cases err)
    case (Some x)
    then show ?thesis using c e1 by simp
  next
    case None
    then have cur: "cur = set (listed e s)"
      using broadcasts_loop_current [of e "listed e s" "{}" "count_api_call s1"] b by simp
    let ?ids = "ended_streams s2 cur"
    have di: "distinct ?ids" by (rule ended_streams_props(1))
    have ks: "\<forall>w \<in> set ?ids. map_of (active_streams s2) w \<noteq> None" by (rule ended_streams_props(2))
    have old: "\<And>w. w \<in> set ?ids \<Longrightarrow> map_of (active_streams s) w \<noteq> None \<and> w \<notin> set (listed e s)"
    proof -
      fix w assume w: "w \<in> set ?ids"
      then have n: "map_of (active_streams s2) w \<noteq> None" "w \<notin> set (listed e s)"
        using ended_streams_props(3) [of w s2 cur] cur by simp_all
      have "map_of (active_streams s2) w = map_of (active_streams s) w"
        using broadcasts_loop_others [OF n(2), of e "{}" "count_api_call s1"] b f by simp
      with n show "map_of (active_streams s) w \<noteq> None \<and> w \<notin> set (listed e s)" by simp
    qed
    have "emits ?P s2 (snd (ended_loop e ?ids s2))"
      using emits_mono [OF ended_loop_about [OF di ks, of e], of ?P] old by blast
    then show ?thesis using c None e1 by (auto intro: emits_trans)
  qed
qed

lemma list_call_fails_listed: "list_call_fails e s \<Longrightarrow> listed e s = []"
  by (simp add: list_call_fails_def listed_def get_live_broadcasts_def Let_def)

lemma full_check_empty_list:
  assumes due: "full_check_due e s" and empty: "listed e s = []"
  shows "fst (check_live_streams e s) = None"
    and "active_streams (snd (check_live_streams e s)) = []"
proof -
  from due obtain s1 err cur s2 where
    b: "broadcasts_loop e (listed e s) {} (count_api_call s1) = (err, cur, s2)"
    and f: "active_streams (count_api_call s1) = active_streams s"
    and c: "check_live_streams e s =
       (case err of Some x \<Rightarrow> (Some x, s2) | None \<Rightarrow> ended_loop e (ended_streams s2 cur) s2)"
    by (rule full_check_parts)
  from b empty have r: "err = None" "cur = {}" "s2 = count_api_call s1" by simp_all
  let ?ids = "ended_streams s2 cur"
  have di: "distinct ?ids" by (rule ended_streams_props(1))
  have ks: "\<forall>w \<in> set ?ids. map_of (active_streams s2) w \<noteq> None" by (rule ended_streams_props(2))
  note eff = ended_loop_effect [OF di ks, of e]
  show "fst (check_live_streams e s) = None" using c r(1) eff by simp
  have "\<And>k. map_of (active_streams (snd (ended_loop e ?ids s2))) k = None"
    using eff ended_streams_props(3) [of _ s2 cur] r(2) by auto
  then have "active_streams (snd (ended_loop e ?ids s2)) = []" by (rule map_of_all_None)
  then show "active_streams (snd (check_live_streams e s)) = []" using c r(1) by simp
qed

text \<open>
  Claim C1, as the code has it. A broadcast-list call that fails in transport returns the
  empty list, and the full check reconciles against it as against any other list: the check
  runs to its end, every tracked identifier gets exactly one \<^verbatim>\<open>youtube.live.ended\<close> event
  and loses its chat cursor, and the active set is empty afterwards. In every full check an
  ended event is about an identifier that was tracked and that the list the check received
  (empty when the call failed) omits.
\<close>

theorem failed_list_call_ends_all_streams:
  assumes "full_check_due e s"
  shows "(list_call_fails e s \<longrightarrow>
            listed e s = [] \<and>
            fst (check_live_streams e s) = None \<and>
            active_streams (snd (check_live_streams e s)) = [] \<and>
            (\<forall>v. map_of (active_streams s) v \<noteq> None \<longrightarrow>
               length (filter (ended_for v) (new_events s (snd (check_live_streams e s)))) = 1 \<and>
               map_of (chat_page_tokens (snd (check_live_streams e s))) v = None)) \<and>
         (\<forall>ev \<in> set (new_events s (snd (check_live_streams e s))). \<forall>v. ended_for v ev \<longrightarrow>
            map_of (active_streams s) v \<noteq> None \<and> v \<notin> set (listed e s))"
proof (intro conjI impI allI ballI)
  assume l: "list_call_fails e s"
  then show empty: "listed e s = []" by (rule list_call_fails_listed)
  show "fst (check_live_streams e s) = None"
    "active_streams (snd (check_live_streams e s)) = []"
    using full_check_empty_list [OF assms empty] by simp_all
next
  fix v
  assume l: "list_call_fails e s" and t: "map_of (active_streams s) v \<noteq> None"
  have empty: "listed e s = []" using l by (rule list_call_fails_listed)
  then have a: "v \<notin> set (listed e s)" by simp
  have c: "fst (check_live_streams e s) = None" by (rule full_check_empty_list(1) [OF assms empty])
  show "length (filter (ended_for v) (new_events s (snd (check_live_streams e s)))) = 1"
    "map_of (chat_page_tokens (snd (check_live_streams e s))) v = None"
    using full_check_ends_omitted [OF assms t a c] by simp_all
next
  fix ev v
  assume ev: "ev \<in> set (new_events s (snd (check_live_streams e s)))" and en: "ended_for v ev"
  from emits_new_events [OF full_check_structure [OF assms]] ev
  have "(\<exists>w \<in> set (listed e s). broadcast_event w ev) \<or>
        fst ev = ''youtube.live.ended'' \<and>
        (\<exists>w. about w ev \<and> map_of (active_streams s) w \<noteq> None \<and> w \<notin> set (listed e s))"
    by blast
  then show "map_of (active_streams s) v \<noteq> None" "v \<notin> set (listed e s)"
    using en by (auto simp: ended_for_def dest: broadcast_event_not_ended about_unique)
qed

theorem failed_list_call_ends_all_streams_witness:
  "full_check_due
     (example_env (\<lambda>t. 300 * second) (\<lambda>t. RequestException) (\<lambda>t v. RequestException) (\<lambda>t r. True))
     (initial_sys\<lparr>active_streams := [(''V1'', example_video 100)]\<rparr>) \<and>
   list_call_fails
     (example_env (\<lambda>t. 300 * second) (\<lambda>t. RequestException) (\<lambda>t v. RequestException) (\<lambda>t r. True))
     (initial_sys\<lparr>active_streams := [(''V1'', example_video 100)]\<rparr>) \<and>
   map_of (active_streams (initial_sys\<lparr>active_streams := [(''V1'', example_video 100)]\<rparr>)) ''V1'' \<noteq> None \<and>
   length (filter (ended_for ''V1'') (new_events
     (initial_sys\<lparr>active_streams := [(''V1'', example_video 100)]\<rparr>)
     (snd (check_live_streams
       (example_env (\<lambda>t. 300 * second) (\<lambda>t. RequestException) (\<lambda>t v. RequestException) (\<lambda>t r. True))
       (initial_sys\<lparr>active_streams := [(''V1'', example_video 100)]\<rparr>))))) = 1 \<and>
   active_streams (snd (check_live_streams
       (example_env (\<lambda>t. 300 * second) (\<lambda>t. RequestException) (\<lambda>t v. RequestException) (\<lambda>t r. True))
       (initial_sys\<lparr>active_streams := [(''V1'', example_video 100)]\<rparr>))) = []"
proof -
  let ?e = "example_env (\<lambda>t. 300 * second) (\<lambda>t. RequestException) (\<lambda>t v. RequestException) (\<lambda>t r. True)"
  let ?s = "initial_sys\<lparr>active_streams := [(''V1'', example_video 100)]\<rparr>"
  have d: "full_check_due ?e ?s" by (simp add: run_defs)
  have l: "list_call_fails ?e ?s" by (simp add: list_call_fails_def run_defs)
  have t: "map_of (active_streams ?s) ''V1'' \<noteq> None" by simp
  from failed_list_call_ends_all_streams [OF d] l t d show ?thesis by blast
qed

text \<open>
  Claim C1 as stated fails: with one tracked stream and a broadcast-list call that raises
  \<^verbatim>\<open>RequestException\<close>, the full check emits the ended event of the stream and evicts it.
\<close>

theorem failed_list_call_counterexample:
  "full_check_due
     (example_env (\<lambda>t. 300 * second) (\<lambda>t. RequestException) (\<lambda>t v. RequestException) (\<lambda>t r. True))
     (initial_sys\<lparr>active_streams := [(''V1'', example_video 100)]\<rparr>) \<and>
   list_call_fails
     (example_env (\<lambda>t. 300 * second) (\<lambda>t. RequestException) (\<lambda>t v. RequestException) (\<lambda>t r. True))
     (initial_sys\<lparr>active_streams := [(''V1'', example_video 100)]\<rparr>) \<and>
   map_of (active_streams (initial_sys\<lparr>active_streams := [(''V1'', example_video 100)]\<rparr>)) ''V1''
     = Some (example_video 100) \<and>
   new_events
     (initial_sys\<lparr>active_streams := [(''V1'', example_video 100)]\<rparr>)
     (snd (check_live_streams
       (example_env (\<lambda>t. 300 * second) (\<lambda>t. RequestException) (\<lambda>t v. RequestException) (\<lambda>t r. True))
       (initial_sys\<lparr>active_streams := [(''V1'', example_video 100)]\<rparr>)))
     = [(''youtube.live.ended'',
         [(''video_id'', JStr ''V1''), (''title'', JStr ''Live''), (''channel_id'', JStr ''UC1''),
          (''ended_at'', JTime 300000000)])] \<and>
   map_of (active_streams (snd (check_live_streams
       (example_env (\<lambda>t. 300 * second) (\<lambda>t. RequestException) (\<lambda>t v. RequestException) (\<lambda>t r. True))
       (initial_sys\<lparr>active_streams := [(''V1'', example_video 100)]\<rparr>)))) ''V1'' = None"
  by (simp add: list_call_fails_def new_events_def run_defs)

text \<open>
  Claim C10. In a full check, let \<open>v\<close> be in the broadcast list the check receives and let
  every details fetch for \<open>v\<close> return \<^verbatim>\<open>None\<close>. Then the check hands over no event about
  \<open>v\<close>, and the entry of \<open>v\<close> in the active set (present or not) and its chat cursor are
  after the check what they were before; so a tracked \<open>v\<close> is not evicted.
\<close>

theorem listed_without_details_untouched:
  assumes due: "full_check_due e s"
    and listed: "v \<in> set (listed e s)"
    and none: "details_unavailable e v"
  shows "(\<forall>ev \<in> set (new_events s (snd (check_live_streams e s))). \<not> about v ev) \<and>
         map_of (active_streams (snd (check_live_streams e s))) v = map_of (active_streams s) v \<and>
         map_of (chat_page_tokens (snd (check_live_streams e s))) v = map_of (chat_page_tokens s) v"
proof -
  from due obtain s1 err cur s2 where
    b: "broadcasts_loop e (listed e s) {} (count_api_call s1) = (err, cur, s2)"
    and f: "emitted (count_api_call s1) = emitted s"
      "active_streams (count_api_call s1) = active_streams s"
      "chat_page_tokens (count_api_call s1) = chat_page_tokens s"
    and c: "check_live_streams e s =
       (case err of Some x \<Rightarrow> (Some x, s2) | None \<Rightarrow> ended_loop e (ended_streams s2 cur) s2)"
    by (rule full_check_parts)
  have n: "\<And>s. fst (get_video_details e v s) = None"
    using none by (rule details_unavailable_None)
  from broadcasts_loop_no_details [of e v "count_api_call s1" "listed e s" "{}", OF n] b f
  have l: "emits (\<lambda>ev. \<not> about v ev) s s2"
    "map_of (active_streams s2) v = map_of (active_streams s) v"
    "map_of (chat_page_tokens s2) v = map_of (chat_page_tokens s) v"
    by (auto simp: emits_def)
  have "emits (\<lambda>ev. \<not> about v ev) s (snd (check_live_streams e s)) \<and>
        map_of (active_streams (snd (check_live_streams e s))) v = map_of (active_streams s) v \<and>
        map_of (chat_page_tokens (snd (check_live_streams e s))) v = map_of (chat_page_tokens s) v"
  proof (cases err)
    case (Some x)
    then show ?thesis using c l by simp
  next
    case None
    then have cur: "cur = set (listed e s)"
      using broadcasts_loop_current [of e "listed e s" "{}" "count_api_call s1"] b by simp
    let ?ids = "ended_streams s2 cur"
    have di: "distinct ?ids" by (rule ended_streams_props(1))
    have ks: "\<forall>w \<in> set ?ids. map_of (active_streams s2) w \<noteq> None" by (rule ended_streams_props(2))
    have vn: "v \<notin> set ?ids"
      using ended_streams_props(3) [of v s2 cur] cur listed by simp
    have "emits (\<lambda>ev. \<not> about v ev) s2 (snd (ended_loop e ?ids s2))"
      using emits_mono [OF ended_loop_about [OF di ks, of e], of "\<lambda>ev. \<not> about v ev"] vn
      by (auto dest: about_unique)
    moreover have "map_of (active_streams (snd (ended_loop e ?ids s2))) v = map_of (active_streams s2) v"
      "map_of (chat_page_tokens (snd (ended_loop e ?ids s2))) v = map_of (chat_page_tokens s2) v"
      using ended_loop_effect [OF di ks, of e] vn by simp_all
    ultimately show ?thesis using c None l by (auto intro: emits_trans)
  qed
  then show ?thesis using emits_new_events by blast
qed

theorem listed_without_details_untouched_witness:
  "full_check_due
     (example_env (\<lambda>t. 300 * second) (\<lambda>t. Response (Data [''V1'', ''V2'']))
        (\<lambda>t v. if v = ''V2'' then Response (Data [example_video 10]) else RequestException) (\<lambda>t r. True))
     (initial_sys\<lparr>active_streams := [(''V1'', example_video 100)], chat_page_tokens := [(''V1'', ''p1'')]\<rparr>) \<and>
   ''V1'' \<in> set (listed
     (example_env (\<lambda>t. 300 * second) (\<lambda>t. Response (Data [''V1'', ''V2'']))
        (\<lambda>t v. if v = ''V2'' then Response (Data [example_video 10]) else RequestException) (\<lambda>t r. True))
     (initial_sys\<lparr>active_streams := [(''V1'', example_video 100)], chat_page_tokens := [(''V1'', ''p1'')]\<rparr>)) \<and>
   details_unavailable
     (example_env (\<lambda>t. 300 * second) (\<lambda>t. Response (Data [''V1'', ''V2'']))
        (\<lambda>t v. if v = ''V2'' then Response (Data [example_video 10]) else RequestException) (\<lambda>t r. True))
     ''V1'' \<and>
   map fst (new_events
     (initial_sys\<lparr>active_streams := [(''V1'', example_video 100)], chat_page_tokens := [(''V1'', ''p1'')]\<rparr>)
     (snd (check_live_streams
       (example_env (\<lambda>t. 300 * second) (\<lambda>t. Response (Data [''V1'', ''V2'']))
          (\<lambda>t v. if v = ''V2'' then Response (Data [example_video 10]) else RequestException) (\<lambda>t r. True))
       (initial_sys\<lparr>active_streams := [(''V1'', example_video 100)], chat_page_tokens := [(''V1'', ''p1'')]\<rparr>))))
     = [''youtube.live.started''] \<and>
   map_of (active_streams (snd (check_live_streams
       (example_env (\<lambda>t. 300 * second) (\<lambda>t. Response (Data [''V1'', ''V2'']))
          (\<lambda>t v. if v = ''V2'' then Response (Data [example_video 10]) else RequestException) (\<lambda>t r. True))
       (initial_sys\<lparr>active_streams := [(''V1'', example_video 100)], chat_page_tokens := [(''V1'', ''p1'')]\<rparr>)))) ''V1''
     = Some (example_video 100) \<and>
   map_of (chat_page_tokens (snd (check_live_streams
       (example_env (\<lambda>t. 300 * second) (\<lambda>t. Response (Data [''V1'', ''V2'']))
          (\<lambda>t v. if v = ''V2'' then Response (Data [example_video 10]) else RequestException) (\<lambda>t r. True))
       (initial_sys\<lparr>active_streams := [(''V1'', example_video 100)], chat_page_tokens := [(''V1'', ''p1'')]\<rparr>)))) ''V1''
     = Some ''p1''"
proof -
  let ?e = "example_env (\<lambda>t. 300 * second) (\<lambda>t. Response (Data [''V1'', ''V2'']))
        (\<lambda>t v. if v = ''V2'' then Response (Data [example_video 10]) else RequestException) (\<lambda>t r. True)"
  let ?s = "initial_sys\<lparr>active_streams := [(''V1'', example_video 100)], chat_page_tokens := [(''V1'', ''p1'')]\<rparr>"
  have d: "full_check_due ?e ?s" by (simp add: run_defs)
  have l: "''V1'' \<in> set (listed ?e ?s)" by (simp add: run_defs)
  have u: "details_unavailable ?e ''V1''"
    by (simp add: details_unavailable_def first_item_def example_env_def)
  have n: "map fst (new_events ?s (snd (check_live_streams ?e ?s))) = [''youtube.live.started'']"
    by (simp add: new_events_def run_defs)
  from listed_without_details_untouched [OF d l u]
  have "map_of (active_streams (snd (check_live_streams ?e ?s))) ''V1'' = map_of (active_streams ?s) ''V1''"
    "map_of (chat_page_tokens (snd (check_live_streams ?e ?s))) ''V1'' = map_of (chat_page_tokens ?s) ''V1''"
    by blast+
  then show ?thesis using d l u n by simp
qed

lemma light_check_unfold:
  "\<not> full_check_due e s \<Longrightarrow>
   check_live_streams e s = refresh_loop e (map fst (active_streams s)) s"
  by (simp add: check_live_streams_def)




text \<open>
  Claim C7, as the code has it. The lightweight-refresh path never emits an ended event and
  never removes an identifier or a chat cursor: the identifiers of the active set and the
  cursors are after the cycle what they were before, and every event of the cycle is a
  viewers-updated event. A stream all of whose details fetches return \<^verbatim>\<open>None\<close> or a video
  without \<^verbatim>\<open>liveStreamingDetails\<close> gets no event and keeps its entry as it was.
\<close>

theorem lightweight_refresh_never_ends:
  assumes "\<not> full_check_due e s"
  shows "map fst (active_streams (snd (check_live_streams e s))) = map fst (active_streams s) \<and>
         chat_page_tokens (snd (check_live_streams e s)) = chat_page_tokens s \<and>
         (\<forall>ev \<in> set (new_events s (snd (check_live_streams e s))).
            fst ev = ''youtube.live.viewers_updated'') \<and>
         (live_details_unavailable e v \<longrightarrow>
            (\<forall>ev \<in> set (new_events s (snd (check_live_streams e s))). \<not> about v ev) \<and>
            map_of (active_streams (snd (check_live_streams e s))) v = map_of (active_streams s) v)"
proof -
  let ?ids = "map fst (active_streams s)"
  have r: "check_live_streams e s = refresh_loop e ?ids s"
    using assms by (rule light_check_unfold)
  note f = refresh_loop_frame [of e ?ids s]
  have "\<forall>ev \<in> set (new_events s (snd (refresh_loop e ?ids s))). fst ev = ''youtube.live.viewers_updated''"
    using f emits_new_events by blast
  moreover have "live_details_unavailable e v \<longrightarrow>
      (\<forall>ev \<in> set (new_events s (snd (refresh_loop e ?ids s))). \<not> about v ev) \<and>
      map_of (active_streams (snd (refresh_loop e ?ids s))) v = map_of (active_streams s) v"
    using refresh_loop_no_live [of e v s ?ids] emits_new_events by blast
  ultimately show ?thesis using f unfolding r by blast
qed

theorem lightweight_refresh_never_ends_witness:
  "\<not> full_check_due
     (example_env (\<lambda>t. 0) (\<lambda>t. RequestException) (\<lambda>t v. RequestException) (\<lambda>t r. True))
     (initial_sys\<lparr>active_streams := [(''V1'', example_video 100)]\<rparr>) \<and>
   live_details_unavailable
     (example_env (\<lambda>t. 0) (\<lambda>t. RequestException) (\<lambda>t v. RequestException) (\<lambda>t r. True)) ''V1'' \<and>
   map fst (active_streams (snd (check_live_streams
     (example_env (\<lambda>t. 0) (\<lambda>t. RequestException) (\<lambda>t v. RequestException) (\<lambda>t r. True))
     (initial_sys\<lparr>active_streams := [(''V1'', example_video 100)]\<rparr>)))) = [''V1''] \<and>
   map_of (active_streams (snd (check_live_streams
     (example_env (\<lambda>t. 0) (\<lambda>t. RequestException) (\<lambda>t v. RequestException) (\<lambda>t r. True))
     (initial_sys\<lparr>active_streams := [(''V1'', example_video 100)]\<rparr>)))) ''V1'' = Some (example_video 100)"
proof -
  let ?e = "example_env (\<lambda>t. 0) (\<lambda>t. RequestException) (\<lambda>t v. RequestException) (\<lambda>t r. True)"
  let ?s = "initial_sys\<lparr>active_streams := [(''V1'', example_video 100)]\<rparr>"
  have l: "\<not> full_check_due ?e ?s" by (simp add: run_defs)
  have u: "live_details_unavailable ?e ''V1''"
    by (simp add: live_details_unavailable_def first_item_def example_env_def)
  from lightweight_refresh_never_ends [OF l, of "''V1''"] u
  have "map fst (active_streams (snd (check_live_streams ?e ?s))) = map fst (active_streams ?s)"
    "map_of (active_streams (snd (check_live_streams ?e ?s))) ''V1'' = map_of (active_streams ?s) ''V1''"
    by blast+
  then show ?thesis using l u by simp
qed

text \<open>
  Claim C7 as stated fails: on the lightweight path a tracked stream whose details fetch
  returns \<^verbatim>\<open>None\<close> gets no event at all and stays in the active set.
\<close>

theorem lightweight_refresh_counterexample:
  "\<not> full_check_due
     (example_env (\<lambda>t. 0) (\<lambda>t. RequestException) (\<lambda>t v. RequestException) (\<lambda>t r. True))
     (initial_sys\<lparr>active_streams := [(''V1'', example_video 100)]\<rparr>) \<and>
   fst (get_video_details
     (example_env (\<lambda>t. 0) (\<lambda>t. RequestException) (\<lambda>t v. RequestException) (\<lambda>t r. True))
     ''V1'' (initial_sys\<lparr>active_streams := [(''V1'', example_video 100)]\<rparr>)) = None \<and>
   map_of (active_streams (initial_sys\<lparr>active_streams := [(''V1'', example_video 100)]\<rparr>)) ''V1''
     = Some (example_video 100) \<and>
   new_events (initial_sys\<lparr>active_streams := [(''V1'', example_video 100)]\<rparr>)
     (snd (check_live_streams
       (example_env (\<lambda>t. 0) (\<lambda>t. RequestException) (\<lambda>t v. RequestException) (\<lambda>t r. True))
       (initial_sys\<lparr>active_streams := [(''V1'', example_video 100)]\<rparr>))) = [] \<and>
   map_of (active_streams (snd (check_live_streams
       (example_env (\<lambda>t. 0) (\<lambda>t. RequestException) (\<lambda>t v. RequestException) (\<lambda>t r. True))
       (initial_sys\<lparr>active_streams := [(''V1'', example_video 100)]\<rparr>)))) ''V1''
     = Some (example_video 100)"
  by (simp add: new_events_def run_defs)

end
